theory Spec2Isabelle
  imports Complex_Main "HOL-Library.Product_Lexorder" "HOL-Library.List_Lexorder" "HOL-Library.AList" "HOL-Library.Sublist"
begin

section \<open>Geometry primitives\<close>

text \<open>
  Modelled from the spec: the module \<^verbatim>\<open>geometry\<close> (\<^verbatim>\<open>Offset\<close>, \<^verbatim>\<open>Size\<close>, \<^verbatim>\<open>Region\<close>) is imported by
  \<^verbatim>\<open>_compositor.py\<close> but is not part of the sources at hand.  The spec's data model gives
  Offset = (x, y), Size = (width, height) and Region = (x, y, width, height) over integers; a
  Region covers the columns [x, x + width) and the rows [y, y + height).
\<close>

datatype Offset = Offset (off_x: int) (off_y: int)
datatype Size = Size (size_width: int) (size_height: int)
datatype Region = Region (reg_x: int) (reg_y: int) (reg_width: int) (reg_height: int)

text \<open>
  Modelled from the spec: \<^verbatim>\<open>Region.contains(x, y)\<close>, membership of a cell in the column span
  [x, x + width) and the row range [y, y + height).
\<close>

fun contains :: "Region \<Rightarrow> int \<Rightarrow> int \<Rightarrow> bool" where
  "contains (Region self_x self_y width height) x y =
     ((self_x + width > x \<and> x \<ge> self_x) \<and> (self_y + height > y \<and> y \<ge> self_y))"

text \<open>
  Modelled from the spec: the remaining operations of \<^verbatim>\<open>geometry\<close> that the compositor calls.
  A Spacing is (top, right, bottom, left).  \<^verbatim>\<open>Size.region\<close> is the region of that size at the
  origin; a region is true (non-empty) when neither axis is zero, read on non-negative sizes
  as width * height > 0; the intersection clamps the corners of the first region into the
  second; two regions overlap when they share a cell; a region contains another when all four
  corners of the other lie inside it; the union is the bounding box.
\<close>

datatype Spacing = Spacing (sp_top: int) (sp_right: int) (sp_bottom: int) (sp_left: int)

fun size_region :: "Size \<Rightarrow> Region" where
  "size_region (Size width height) = Region 0 0 width height"

fun region_size :: "Region \<Rightarrow> Size" where
  "region_size (Region x y width height) = Size width height"

fun region_offset :: "Region \<Rightarrow> Offset" where
  "region_offset (Region x y width height) = Offset x y"

fun region_bool :: "Region \<Rightarrow> bool" where
  "region_bool (Region x y width height) = (width * height > 0)"

fun clamp :: "int \<Rightarrow> int \<Rightarrow> int \<Rightarrow> int" where
  "clamp v lo hi = (if v > hi then hi else if v < lo then lo else v)"

fun intersection :: "Region \<Rightarrow> Region \<Rightarrow> Region" where
  "intersection (Region x1 y1 w1 h1) (Region cx1 cy1 w2 h2) =
     (let x2 = x1 + w1; y2 = y1 + h1; cx2 = cx1 + w2; cy2 = cy1 + h2;
          rx1 = clamp x1 cx1 cx2; ry1 = clamp y1 cy1 cy2;
          rx2 = clamp x2 cx1 cx2; ry2 = clamp y2 cy1 cy2
      in Region rx1 ry1 (rx2 - rx1) (ry2 - ry1))"

fun overlaps :: "Region \<Rightarrow> Region \<Rightarrow> bool" where
  "overlaps (Region x y w h) (Region ox oy ow oh) =
     (max x ox < min (x + w) (ox + ow) \<and> max y oy < min (y + h) (oy + oh))"

fun contains_region :: "Region \<Rightarrow> Region \<Rightarrow> bool" where
  "contains_region (Region x1 y1 w h) (Region ox oy ow oh) =
     (let x2 = x1 + w; y2 = y1 + h; ox2 = ox + ow; oy2 = oy + oh
      in (x2 \<ge> ox \<and> ox \<ge> x1) \<and> (y2 \<ge> oy \<and> oy \<ge> y1) \<and>
         (x2 \<ge> ox2 \<and> ox2 \<ge> x1) \<and> (y2 \<ge> oy2 \<and> oy2 \<ge> y1))"

fun column_span :: "Region \<Rightarrow> int \<times> int" where
  "column_span (Region x y width height) = (x, x + width)"

fun line_range :: "Region \<Rightarrow> int list" where
  "line_range (Region x y width height) = [y .. y + height - 1]"

fun offset_add :: "Offset \<Rightarrow> Offset \<Rightarrow> Offset" where
  "offset_add (Offset x y) (Offset ox oy) = Offset (x + ox) (y + oy)"

fun offset_sub :: "Offset \<Rightarrow> Offset \<Rightarrow> Offset" where
  "offset_sub (Offset x y) (Offset ox oy) = Offset (x - ox) (y - oy)"

fun spacing_add :: "Spacing \<Rightarrow> Spacing \<Rightarrow> Spacing" where
  "spacing_add (Spacing top1 right1 bottom1 left1) (Spacing top2 right2 bottom2 left2) =
     Spacing (top1 + top2) (right1 + right2) (bottom1 + bottom2) (left1 + left2)"

fun translate :: "Region \<Rightarrow> Offset \<Rightarrow> Region" where
  "translate (Region x y width height) (Offset offset_x offset_y) =
     Region (x + offset_x) (y + offset_y) width height"

fun shrink :: "Region \<Rightarrow> Spacing \<Rightarrow> Region" where
  "shrink (Region x y width height) (Spacing t r b l) =
     Region (x + l) (y + t) (max 0 (width - (l + r)))
       (max 0 (height - (t + b)))"

fun grow :: "Region \<Rightarrow> Spacing \<Rightarrow> Region" where
  "grow (Region x y width height) (Spacing t r b l) =
     Region (x - l) (y - t) (max 0 (width + l + r))
       (max 0 (height + t + b))"

fun reset_offset :: "Region \<Rightarrow> Region" where
  "reset_offset (Region x y width height) = Region 0 0 width height"

fun region_union :: "Region \<Rightarrow> Region \<Rightarrow> Region" where
  "region_union (Region x1 y1 w1 h1) (Region x2 y2 w2 h2) =
     (let min_x = min x1 x2; min_y = min y1 y2;
          max_x = max (x1 + w1) (x2 + w2); max_y = max (y1 + h1) (y2 + h2)
      in Region min_x min_y (max_x - min_x) (max_y - min_y))"

section \<open>Regions to spans\<close>

text \<open>
  \<^verbatim>\<open>Compositor._regions_to_spans\<close>.  A span is the tuple (y, x1, x2); it covers the cells
  (x, y) with x1 \<le> x < x2.  The dictionary \<^verbatim>\<open>inline_ranges\<close> is an association list in
  insertion order; \<^verbatim>\<open>setdefault(y, []).append(span)\<close> appends to the row's list, creating the
  row at the end when it is missing.
\<close>

type_synonym span = "int \<times> int \<times> int"

fun span_contains :: "span \<Rightarrow> int \<Rightarrow> int \<Rightarrow> bool" where
  "span_contains (sy, x1, x2) x y = (y = sy \<and> x1 \<le> x \<and> x < x2)"

fun setdefault_append ::
  "int \<Rightarrow> (int \<times> int) \<Rightarrow> (int \<times> (int \<times> int) list) list \<Rightarrow> (int \<times> (int \<times> int) list) list" where
  "setdefault_append y item [] = [(y, [item])]"
| "setdefault_append y item ((k, v) # rows) =
     (if k = y then (k, v @ [item]) # rows else (k, v) # setdefault_append y item rows)"

fun add_region_rows ::
  "Region \<Rightarrow> (int \<times> (int \<times> int) list) list \<Rightarrow> (int \<times> (int \<times> int) list) list" where
  "add_region_rows (Region region_x region_y width height) inline_ranges =
     fold (\<lambda>y. setdefault_append y (region_x, region_x + width))
       [region_y .. region_y + height - 1] inline_ranges"

definition inline_ranges_of :: "Region list \<Rightarrow> (int \<times> (int \<times> int) list) list" where
  "inline_ranges_of regions = fold add_region_rows regions []"

text \<open>
  The loop over \<^verbatim>\<open>ranges[1:]\<close> with the running interval (x1, x2); the recursion's result is
  what the loop yields, followed by the final \<^verbatim>\<open>yield (y, x1, x2)\<close>.
\<close>

fun merge_ranges :: "int \<Rightarrow> int \<Rightarrow> int \<Rightarrow> (int \<times> int) list \<Rightarrow> span list" where
  "merge_ranges y x1 x2 [] = [(y, x1, x2)]"
| "merge_ranges y x1 x2 ((next_x1, next_x2) # ranges) =
     (if next_x1 \<le> x2 then
        (if next_x2 > x2 then merge_ranges y x1 next_x2 ranges
         else merge_ranges y x1 x2 ranges)
      else (y, x1, x2) # merge_ranges y next_x1 next_x2 ranges)"

text \<open>
  One iteration of \<^verbatim>\<open>for y, ranges in sorted(inline_ranges.items())\<close>.  Every row list holds
  at least one interval, so \<^verbatim>\<open>ranges[0]\<close> never fails; the empty case is unreachable.
\<close>

fun row_spans :: "int \<times> (int \<times> int) list \<Rightarrow> span list" where
  "row_spans (y, ranges) =
     (if length ranges = 1 then [(y, fst (hd ranges), snd (hd ranges))]
      else (case sort ranges of
              [] \<Rightarrow> []
            | (x1, x2) # remaining \<Rightarrow> merge_ranges y x1 x2 remaining))"

definition regions_to_spans :: "Region list \<Rightarrow> span list" where
  "regions_to_spans regions =
     concat (map row_spans (sort_key fst (inline_ranges_of regions)))"

text \<open>
  Reading the dictionary with a default, and the intervals that the regions contribute to a
  row, in the order of the regions: what \<^verbatim>\<open>inline_ranges[y]\<close> is proved to hold.
\<close>

definition lk :: "(int \<times> (int \<times> int) list) list \<Rightarrow> int \<Rightarrow> (int \<times> int) list" where
  "lk d y = (case map_of d y of None \<Rightarrow> [] | Some v \<Rightarrow> v)"

definition rows_of :: "Region list \<Rightarrow> int \<Rightarrow> (int \<times> int) list" where
  "rows_of rs y = map (\<lambda>r. (reg_x r, reg_x r + reg_width r))
     (filter (\<lambda>r. reg_y r \<le> y \<and> y < reg_y r + reg_height r) rs)"

text \<open>
  The order in which spans are yielded: by row, and inside a row strictly apart from left to right.
\<close>

definition span_before :: "span \<Rightarrow> span \<Rightarrow> bool" where
  "span_before s t = (fst s < fst t \<or> (fst s = fst t \<and> snd (snd s) < fst (snd t)))"

text \<open>
  The widget tree that the arrangement walks.  Widgets are external collaborators; the model
  records, per widget, its identity (\<open>w_id\<close>, the key of every map and set of widgets) and what
  its attributes and methods answer during one pass: the styled visibility rule, the offset
  rule (its \<^verbatim>\<open>resolve\<close>, or none), the gutter, the flags \<^verbatim>\<open>is_scrollable\<close> and \<^verbatim>\<open>is_container\<close>,
  \<^verbatim>\<open>_get_scrollable_region\<close>, the result of \<^verbatim>\<open>_arrange\<close> (placements, the set of arranged
  widgets, total region, scroll spacing), the scroll offset, the declared layers, the widget's
  own layer, the enabled scrollbars and the result of \<^verbatim>\<open>_arrange_scrollbars\<close> (chrome widget and
  region).  A placement is (region, margin, widget, order, fixed).
\<close>

datatype Widget = Widget
  (w_id: nat)
  (w_visibility: "string option")
  (w_offset: "(Size \<Rightarrow> Size \<Rightarrow> Offset) option")
  (w_gutter: Spacing)
  (w_is_scrollable: bool)
  (w_is_container: bool)
  (w_get_scrollable_region: "Region \<Rightarrow> Region")
  (w_arrange: ArrangeResult)
  (w_scroll_offset: Offset)
  (w_layers: "string list")
  (w_layer: string)
  (w_scrollbars_enabled: "bool \<times> bool")
  (w_arrange_scrollbars: "(nat \<times> Region) list")
and ArrangeResult = ArrangeResult
  (a_placements: "WidgetPlacement list")
  (a_widgets: "nat set")
  (a_total_region: Region)
  (a_scroll_spacing: Spacing)
and WidgetPlacement = WidgetPlacement
  (p_region: Region)
  (p_margin: Spacing)
  (p_widget: Widget)
  (p_order: int)
  (p_fixed: bool)

text \<open>
  \<^verbatim>\<open>MapGeometry\<close>, and the composition map: a dictionary in insertion order, as an association
  list updated with \<^const>\<open>AList.update\<close> (a present key keeps its place, a new key goes last).
\<close>

datatype MapGeometry = MapGeometry
  (geo_region: Region)
  (geo_order: "(int \<times> int \<times> int) list")
  (geo_clip: Region)
  (geo_virtual_size: Size)
  (geo_container_size: Size)
  (geo_virtual_region: Region)

type_synonym CompositorMap = "(nat \<times> MapGeometry) list"

section \<open>The compositor\<close>

text \<open>
  The exceptions that the modelled code can raise, the result of a reflow, and the attributes
  of \<^verbatim>\<open>Compositor\<close>: \<open>c_full_map\<close> is \<^verbatim>\<open>_full_map\<close>, \<open>c_widgets\<close> is \<^verbatim>\<open>widgets\<close>, and so on; a cache
  that holds \<^verbatim>\<open>None\<close> is \<open>None\<close>.  The set of dirty regions is a list without an order of
  its own: the code only tests membership and iterates over it.
\<close>

datatype error = NoWidget | IndexError | KeyError

datatype ReflowResult = ReflowResult
  (hidden: "nat set")
  (shown: "nat set")
  (resized: "nat set")

record Compositor =
  c_full_map :: CompositorMap
  c_full_map_invalidated :: bool
  c_visible_map :: "CompositorMap option"
  c_layers :: "(nat \<times> MapGeometry) list option"
  c_widgets :: "nat set"
  c_visible_widgets :: "(nat \<times> Region \<times> Region) list option"
  c_root :: "Widget option"
  c_size :: Size
  c_cuts :: "int list list option"
  c_dirty_regions :: "Region list"
  c_layers_visible :: "(nat \<times> Region \<times> Region) list list option"

definition init :: Compositor where
  "init = \<lparr> c_full_map = [], c_full_map_invalidated = True, c_visible_map = None,
            c_layers = None, c_widgets = {}, c_visible_widgets = None, c_root = None,
            c_size = Size 0 0, c_cuts = None, c_dirty_regions = [], c_layers_visible = None \<rparr>"

text \<open>
  Python indexing and slicing of a list of length \<open>n\<close>: a negative index counts from the
  end and an index out of range raises; a slice bound is clamped into the list.  Sorting
  with \<^verbatim>\<open>reverse=True\<close> keeps elements of equal key in their original order.
\<close>

definition py_index :: "int \<Rightarrow> nat \<Rightarrow> nat option" where
  "py_index i n =
     (if 0 \<le> i \<and> i < int n then Some (nat i)
      else if - int n \<le> i \<and> i < 0 then Some (nat (int n + i))
      else None)"

definition py_slice_index :: "int \<Rightarrow> nat \<Rightarrow> nat" where
  "py_slice_index i n =
     (if i < 0 then nat (max 0 (int n + i)) else nat (min i (int n)))"

definition sort_reverse :: "('a \<Rightarrow> 'k::linorder) \<Rightarrow> 'a list \<Rightarrow> 'a list" where
  "sort_reverse key xs = rev (sort_key key (rev xs))"

text \<open>
  The property \<^verbatim>\<open>visible_widgets\<close>.  Every property returns its value and the compositor
  with the cache filled.
\<close>

definition visible_widgets ::
  "Compositor \<Rightarrow> (nat \<times> Region \<times> Region) list \<times> Compositor" where
  "visible_widgets s =
     (case c_visible_widgets s of
        Some cached \<Rightarrow> (cached, s)
      | None \<Rightarrow>
          (let map = (case c_visible_map s of Some m \<Rightarrow> m | None \<Rightarrow> c_full_map s);
               screen = size_region (c_size s);
               visible_widgets =
                 [(geo_order g, widget, geo_region g, geo_clip g).
                    (widget, g) \<leftarrow> map,
                    overlaps screen (geo_region g) \<and> overlaps (geo_clip g) (geo_region g)];
               ordered = sort_reverse fst visible_widgets;
               result = [(widget, region, clip). (order, widget, region, clip) \<leftarrow> ordered]
           in (result, s\<lparr>c_visible_widgets := Some result\<rparr>)))"

text \<open>
  The property \<^verbatim>\<open>cuts\<close>: \<open>extend_rows\<close> is the loop over the slice
  \<^verbatim>\<open>cuts[y : y + region_height]\<close>, \<open>add_cuts\<close> one iteration of the loop over the visible widgets.
\<close>

fun extend_rows :: "nat \<Rightarrow> nat \<Rightarrow> int list \<Rightarrow> int list list \<Rightarrow> int list list" where
  "extend_rows start stop region_cuts cuts =
     map (\<lambda>(i, cut). if start \<le> i \<and> i < stop then cut @ region_cuts else cut)
       (zip [0..<length cuts] cuts)"

fun add_cuts :: "Region \<Rightarrow> Region \<times> Region \<Rightarrow> int list list \<Rightarrow> int list list" where
  "add_cuts screen_region (region0, clip) cuts =
     (let region = intersection region0 clip
      in if region_bool region \<and> contains_region screen_region region then
           (let x = reg_x region; y = reg_y region;
                region_width = reg_width region; region_height = reg_height region;
                region_cuts = [x, x + region_width]
            in extend_rows (py_slice_index y (length cuts))
                 (py_slice_index (y + region_height) (length cuts)) region_cuts cuts)
         else cuts)"

definition cuts :: "Compositor \<Rightarrow> int list list \<times> Compositor" where
  "cuts s =
     (case c_cuts s of
        Some cached \<Rightarrow> (cached, s)
      | None \<Rightarrow>
          (let width = size_width (c_size s); height = size_height (c_size s);
               screen_region = size_region (c_size s);
               cuts0 = replicate (nat height) [0, width];
               (vw, s1) = visible_widgets s;
               cuts1 = fold (add_cuts screen_region) (map snd vw) cuts0;
               result = map (\<lambda>line_cuts. sort (remdups line_cuts)) cuts1
           in (result, s1\<lparr>c_cuts := Some result\<rparr>)))"

text \<open>
  The property \<^verbatim>\<open>layers_visible\<close>: \<open>append_rows\<close> is the loop over the rows of one widget,
  which indexes the list of rows and so can raise.
\<close>

fun append_rows ::
  "'a \<Rightarrow> int list \<Rightarrow> 'a list list \<Rightarrow> error + 'a list list" where
  "append_rows widget_location [] layers_visible = Inr layers_visible"
| "append_rows widget_location (y # ys) layers_visible =
     (case py_index y (length layers_visible) of
        None \<Rightarrow> Inl IndexError
      | Some k \<Rightarrow>
          append_rows widget_location ys
            (layers_visible[k := layers_visible ! k @ [widget_location]]))"

fun add_layer_rows ::
  "(nat \<times> Region \<times> Region) list \<Rightarrow> (nat \<times> Region \<times> Region) list list \<Rightarrow>
   error + (nat \<times> Region \<times> Region) list list" where
  "add_layer_rows [] layers_visible = Inr layers_visible"
| "add_layer_rows ((widget, region, clip) # rest) layers_visible =
     (let cropped_region = intersection region clip;
          region_y = reg_y cropped_region; region_height = reg_height cropped_region
      in if region_height \<noteq> 0 then
           (case append_rows (widget, cropped_region, region)
                   [region_y .. region_y + region_height - 1] layers_visible of
              Inl e \<Rightarrow> Inl e
            | Inr layers_visible' \<Rightarrow> add_layer_rows rest layers_visible')
         else add_layer_rows rest layers_visible)"

definition layers_visible ::
  "Compositor \<Rightarrow> (error + (nat \<times> Region \<times> Region) list list) \<times> Compositor" where
  "layers_visible s =
     (case c_layers_visible s of
        Some cached \<Rightarrow> (Inr cached, s)
      | None \<Rightarrow>
          (let layers0 = replicate (nat (size_height (c_size s))) [];
               (vw, s1) = visible_widgets s
           in case add_layer_rows vw layers0 of
                Inl e \<Rightarrow> (Inl e, s1)
              | Inr result \<Rightarrow> (Inr result, s1\<lparr>c_layers_visible := Some result\<rparr>)))"

text \<open>
  \<^verbatim>\<open>get_widget_at\<close> and \<^verbatim>\<open>get_widgets_at\<close>; \<open>widget_visible\<close> is the external property
  \<^verbatim>\<open>widget.visible\<close>.  The generator \<^verbatim>\<open>get_widgets_at\<close> is modelled by the list it yields, or
  the exception raised when it is consumed.
\<close>

definition get_widget_at ::
  "(nat \<Rightarrow> bool) \<Rightarrow> int \<Rightarrow> int \<Rightarrow> Compositor \<Rightarrow> (error + nat \<times> Region) \<times> Compositor" where
  "get_widget_at widget_visible x y s =
     (case layers_visible s of
        (Inl e, s1) \<Rightarrow> (Inl e, s1)
      | (Inr lv, s1) \<Rightarrow>
          (if int (length lv) > y \<and> y \<ge> 0 then
             (case filter (\<lambda>(widget, cropped_region, region).
                      contains cropped_region x y \<and> widget_visible widget) (lv ! nat y) of
                [] \<Rightarrow> (Inl NoWidget, s1)
              | (widget, cropped_region, region) # _ \<Rightarrow> (Inr (widget, region), s1))
           else (Inl NoWidget, s1)))"

definition get_widgets_at ::
  "(nat \<Rightarrow> bool) \<Rightarrow> int \<Rightarrow> int \<Rightarrow> Compositor \<Rightarrow>
   (error + (nat \<times> Region) list) \<times> Compositor" where
  "get_widgets_at widget_visible x y s =
     (case layers_visible s of
        (Inl e, s1) \<Rightarrow> (Inl e, s1)
      | (Inr lv, s1) \<Rightarrow>
          (case py_index y (length lv) of
             None \<Rightarrow> (Inl IndexError, s1)
           | Some k \<Rightarrow>
               (Inr [(widget, region).
                       (widget, cropped_region, region) \<leftarrow> lv ! k,
                       contains cropped_region x y \<and> widget_visible widget], s1)))"

text \<open>
  Scenario 1 of the spec: a screen of 10 by 3 cells with a root that fills it and a leaf at
  (2, 1, 5, 1).
\<close>

definition example_map :: CompositorMap where
  "example_map =
     [(1, MapGeometry (Region 0 0 10 3) [(0,0,0)] (Region 0 0 10 3) (Size 10 3) (Size 10 3) (Region 0 0 10 3)),
      (2, MapGeometry (Region 2 1 5 1) [(0,0,0),(0,0,0)] (Region 0 0 10 3) (Size 5 1) (Size 5 1) (Region 2 1 5 1))]"

definition example_state :: Compositor where
  "example_state = init\<lparr>c_full_map := example_map, c_size := Size 10 3\<rparr>"

text \<open>
  \<open>cut_edge screen y c (region, clip)\<close>: the clipped region of a widget is non-empty, lies
  inside the screen, covers row \<open>y\<close>, and \<open>c\<close> is its left or its right edge.
\<close>

definition cut_edge :: "Region \<Rightarrow> nat \<Rightarrow> int \<Rightarrow> Region \<times> Region \<Rightarrow> bool" where
  "cut_edge screen_region y c rc =
     (let r = intersection (fst rc) (snd rc)
      in region_bool r \<and> contains_region screen_region r \<and>
         reg_y r \<le> int y \<and> int y < reg_y r + reg_height r \<and>
         (c = reg_x r \<or> c = reg_x r + reg_width r))"

section \<open>Rendering\<close>

text \<open>
  \<^verbatim>\<open>_get_renders\<close>.  \<open>render_request\<close> is the region that one iteration of its loop passes to
  \<^verbatim>\<open>widget.render_lines\<close>, or none when the widget is skipped; \<open>widget_regions\<close> is the list
  of that name; \<open>render_calls\<close> lists the calls made, in order, and \<open>get_renders\<close> what is
  yielded.  \<open>opacity\<close> is \<^verbatim>\<open>widget.styles.opacity\<close> and \<open>render_lines\<close> the external renderer;
  a strip is the list of its cells.
\<close>

fun render_request :: "Region \<Rightarrow> Region \<Rightarrow> Region option" where
  "render_request region clip =
     (if contains_region clip region then
        Some (Region 0 0 (reg_width region) (reg_height region))
      else
        (let clipped_region = intersection region clip
         in if \<not> region_bool clipped_region then None
            else
              (let new_x = reg_x clipped_region; new_y = reg_y clipped_region;
                   new_width = reg_width clipped_region; new_height = reg_height clipped_region;
                   delta_x = new_x - reg_x region; delta_y = new_y - reg_y region
               in Some (Region delta_x delta_y new_width new_height))))"

definition widget_regions ::
  "(nat \<Rightarrow> real) \<Rightarrow> Region option \<Rightarrow> Compositor \<Rightarrow>
   (nat \<times> Region \<times> Region) list \<times> Compositor" where
  "widget_regions opacity crop s =
     (let (vw, s1) = visible_widgets s
      in (case crop of
            None \<Rightarrow> ([(widget, region, clip). (widget, region, clip) \<leftarrow> vw, opacity widget > 0], s1)
          | Some c \<Rightarrow>
              if region_bool c then
                ([(widget, region, clip).
                    (widget, region, clip) \<leftarrow> vw, overlaps c clip \<and> opacity widget > 0], s1)
              else
                ([(widget, region, clip). (widget, region, clip) \<leftarrow> vw, opacity widget > 0], s1)))"

definition render_calls ::
  "(nat \<Rightarrow> real) \<Rightarrow> Region option \<Rightarrow> Compositor \<Rightarrow>
   (nat \<times> Region \<times> Region \<times> Region) list \<times> Compositor" where
  "render_calls opacity crop s =
     (let (wr, s1) = widget_regions opacity crop s
      in (concat (map (\<lambda>(widget, region, clip).
                    case render_request region clip of
                      None \<Rightarrow> []
                    | Some request \<Rightarrow> [(widget, region, clip, request)]) wr), s1))"

definition get_renders ::
  "(nat \<Rightarrow> real) \<Rightarrow> (nat \<Rightarrow> Region \<Rightarrow> 'c list list) \<Rightarrow> Region option \<Rightarrow> Compositor \<Rightarrow>
   (Region \<times> Region \<times> 'c list list) list \<times> Compositor" where
  "get_renders opacity render_lines crop s =
     (let (calls, s1) = render_calls opacity crop s
      in (map (\<lambda>(widget, region, clip, request). (region, clip, render_lines widget request))
            calls, s1))"


section \<open>The arrangement\<close>

text \<open>
  The index of a layer name in the widget's declared layers, 0 when it is not declared:
  \<^verbatim>\<open>layers_to_index.get(sub_widget.layer, 0)\<close>, where a name declared twice keeps its last index.
\<close>

definition layer_index_of :: "string list \<Rightarrow> string \<Rightarrow> int" where
  "layer_index_of layers layer_name =
     (case map_of (rev (zip layers (map int [0..<length layers]))) layer_name of
        None \<Rightarrow> 0
      | Some index \<Rightarrow> index)"

text \<open>
  Modelled from the spec: \<^verbatim>\<open>get_visible_placements\<close> belongs to the arrange result, which is not
  part of the sources at hand.  The spec: when \<^verbatim>\<open>visible_only\<close>, filter to placements intersecting
  \<^verbatim>\<open>container_size.region + scroll_offset\<close>.
\<close>

definition get_visible_placements :: "ArrangeResult \<Rightarrow> Region \<Rightarrow> WidgetPlacement list" where
  "get_visible_placements arrange_result viewport =
     filter (\<lambda>placement. overlaps viewport (p_region placement)) (a_placements arrange_result)"

text \<open>
  The loop over \<^verbatim>\<open>widget._arrange_scrollbars(container_region)\<close>: every chrome widget is
  inserted with the order and the clip of its owner.
\<close>

definition add_scrollbars ::
  "(nat \<times> Region) list \<Rightarrow> (int \<times> int \<times> int) list \<Rightarrow> Region \<Rightarrow> Size \<Rightarrow>
   CompositorMap \<Rightarrow> CompositorMap" where
  "add_scrollbars chrome order clip container_size map0 =
     fold (\<lambda>(chrome_widget, chrome_region).
             AList.update chrome_widget
               (MapGeometry chrome_region order clip container_size container_size chrome_region))
       chrome map0"

text \<open>
  The closure \<^verbatim>\<open>add_widget\<close> of \<^verbatim>\<open>_arrange_root\<close>, which mutates \<^verbatim>\<open>map\<close> and \<^verbatim>\<open>widgets\<close>: the pair
  is passed in and returned.  \<open>add_placements\<close> is its loop over \<^verbatim>\<open>reversed(placements)\<close>, which
  also carries \<^verbatim>\<open>total_region\<close> and decrements \<^verbatim>\<open>layer_order\<close> after every placement.
\<close>

function add_widget ::
  "bool \<Rightarrow> Widget \<Rightarrow> Region \<Rightarrow> Region \<Rightarrow> (int \<times> int \<times> int) list \<Rightarrow> int \<Rightarrow> Region \<Rightarrow> bool \<Rightarrow>
   CompositorMap \<times> nat set \<Rightarrow> CompositorMap \<times> nat set"
and add_placements ::
  "bool \<Rightarrow> WidgetPlacement list \<Rightarrow> string list \<Rightarrow> Spacing \<Rightarrow> Offset \<Rightarrow> Offset \<Rightarrow>
   (int \<times> int \<times> int) list \<Rightarrow> int \<Rightarrow> Region \<Rightarrow> bool \<Rightarrow>
   Region \<times> CompositorMap \<times> nat set \<Rightarrow> Region \<times> CompositorMap \<times> nat set"
where
  "add_widget visible_only widget virtual_region region order layer_order clip visible0
     (map0, widgets0) =
     (let visible = (case w_visibility widget of
                       None \<Rightarrow> visible0
                     | Some visibility \<Rightarrow> visibility = ''visible'');
          widgets = (if visible then insert (w_id widget) widgets0 else widgets0);
          layout_offset = (case w_offset widget of
                             Some resolve \<Rightarrow> resolve (region_size region) (region_size clip)
                           | None \<Rightarrow> Offset 0 0);
          container_region = translate (shrink region (w_gutter widget)) layout_offset;
          container_size = region_size container_region
      in if w_is_scrollable widget then
           (let child_region = w_get_scrollable_region widget container_region;
                sub_clip = intersection clip child_region;
                total_region0 = reset_offset child_region;
                (total_region, map1, widgets1) =
                  (if w_is_container widget then
                     (let arrange_result = w_arrange widget;
                          widgets' = widgets \<union> a_widgets arrange_result;
                          placements =
                            (if visible_only then
                               get_visible_placements arrange_result
                                 (translate (size_region container_size) (w_scroll_offset widget))
                             else a_placements arrange_result);
                          total_region' = region_union total_region0 (a_total_region arrange_result);
                          placement_offset = region_offset container_region;
                          placement_scroll_offset =
                            offset_sub placement_offset (w_scroll_offset widget)
                      in add_placements visible_only (rev placements) (w_layers widget)
                           (a_scroll_spacing arrange_result) placement_offset
                           placement_scroll_offset order layer_order sub_clip visible
                           (total_region', map0, widgets'))
                   else (total_region0, map0, widgets))
            in if visible then
                 (let map2 = (if fst (w_scrollbars_enabled widget) \<or> snd (w_scrollbars_enabled widget)
                              then add_scrollbars (w_arrange_scrollbars widget) order clip
                                     container_size map1
                              else map1)
                  in (AList.update (w_id widget)
                        (MapGeometry (translate region layout_offset) order clip
                           (region_size total_region) container_size virtual_region) map2,
                      widgets1))
               else (map1, widgets1))
         else if visible then
           (AList.update (w_id widget)
              (MapGeometry (translate region layout_offset) order clip (region_size region)
                 container_size virtual_region) map0,
            widgets)
         else (map0, widgets))"
| "add_placements visible_only [] layers scroll_spacing placement_offset placement_scroll_offset
     order layer_order sub_clip visible state = state"
| "add_placements visible_only (placement # rest) layers scroll_spacing placement_offset
     placement_scroll_offset order layer_order sub_clip visible (total_region, map0, widgets) =
     (let sub_region = p_region placement; margin = p_margin placement;
          sub_widget = p_widget placement; z = p_order placement; fixed = p_fixed placement;
          layer_index = layer_index_of layers (w_layer sub_widget);
          total_region' =
            (if fixed then total_region
             else region_union total_region
                    (grow sub_region
                       (if layer_index \<noteq> 0 then margin else spacing_add margin scroll_spacing)));
          widget_region =
            (if fixed then translate sub_region placement_offset
             else translate sub_region placement_scroll_offset);
          widget_order = order @ [(layer_index, z, layer_order)];
          (map1, widgets') =
            add_widget visible_only sub_widget sub_region widget_region widget_order layer_order
              sub_clip visible (map0, widgets)
      in add_placements visible_only rest layers scroll_spacing placement_offset
           placement_scroll_offset order (layer_order - 1) sub_clip visible
           (total_region', map1, widgets'))"
  by pat_completeness auto


text \<open>
  Termination: a placement's widget is smaller than the widget that arranges it.
\<close>

lemma size_list_filter_le: "size_list f (filter P xs) \<le> size_list f xs"
  by (induction xs) auto

lemma size_list_rev: "size_list f (rev xs) = size_list f xs"
  by (induction xs) auto

lemma size_placements:
  "size_list size (a_placements (w_arrange widget)) < size widget"
  by (cases widget; cases "w_arrange widget") auto

lemma size_placement: "size placement = Suc (size (p_widget placement))"
  by (cases placement) simp

lemma size_visible_placements:
  "Suc (2 * size_list size (rev (get_visible_placements (w_arrange widget) viewport)))
     < 2 * size widget"
proof -
  have "size_list size (rev (get_visible_placements (w_arrange widget) viewport))
      \<le> size_list size (a_placements (w_arrange widget))"
    by (simp add: get_visible_placements_def size_list_filter_le size_list_rev)
  then show ?thesis using size_placements[of widget] by simp
qed

lemma size_all_placements:
  "Suc (2 * size_list size (rev (a_placements (w_arrange widget)))) < 2 * size widget"
  using size_placements[of widget] by (simp add: size_list_rev)

termination add_widget
proof (relation "measure (\<lambda>x. case x of
          Inl (visible_only, widget, rest) \<Rightarrow> 2 * size widget
        | Inr (visible_only, placements, rest) \<Rightarrow> 2 * size_list size placements + 1)",
       goal_cases)
  case 1
  show ?case by simp
next
  case 2
  then show ?case
    by (auto simp: size_visible_placements size_all_placements)
next
  case 3
  then show ?case by (simp add: size_placement)
next
  case 4
  then show ?case by simp
qed

declare add_widget.simps [simp del]

section \<open>Reflow and the full map\<close>

text \<open>
  \<^verbatim>\<open>_arrange_root\<close>, whose parameter \<^verbatim>\<open>visible_only\<close> defaults to true.
\<close>

definition arrange_root :: "Widget \<Rightarrow> Size \<Rightarrow> bool \<Rightarrow> CompositorMap \<times> nat set" where
  "arrange_root root' size' visible_only =
     add_widget visible_only root' (size_region size') (size_region size') [(0, 0, 0)] 0
       (size_region size') True ([], {})"

text \<open>
  \<^verbatim>\<open>map.items() ^ old_map.items()\<close>, the items in one map and not in the other, and the
  marking of dirty regions shared by \<^verbatim>\<open>reflow\<close> and \<^verbatim>\<open>reflow_visible\<close>.
\<close>

definition items_xor :: "CompositorMap \<Rightarrow> CompositorMap \<Rightarrow> (nat \<times> MapGeometry) list" where
  "items_xor map1 old_map =
     filter (\<lambda>item. item \<notin> set old_map) map1 @ filter (\<lambda>item. item \<notin> set map1) old_map"

definition mark_dirty ::
  "Region \<Rightarrow> (nat \<times> MapGeometry) list \<Rightarrow> Compositor \<Rightarrow> Compositor" where
  "mark_dirty screen_region changes s =
     (if screen_region \<notin> set (c_dirty_regions s) then
        (let regions =
               [region.
                  region \<leftarrow> map (\<lambda>(_, map_geometry).
                             intersection (geo_clip map_geometry) (geo_region map_geometry))
                           changes,
                  region_bool region]
         in s\<lparr>c_dirty_regions := List.union regions (c_dirty_regions s)\<rparr>)
      else s)"

text \<open>
  \<^verbatim>\<open>reflow\<close>, in the order of its statements: the map and the set of widgets are replaced
  before the three results are computed.  It calls \<^verbatim>\<open>_arrange_root(parent, size)\<close>, so with
  \<^verbatim>\<open>visible_only\<close> at its default, and it does not assign \<^verbatim>\<open>_full_map_invalidated\<close>.
\<close>

definition reflow :: "Widget \<Rightarrow> Size \<Rightarrow> Compositor \<Rightarrow> ReflowResult \<times> Compositor" where
  "reflow parent size' s =
     (let s1 = s\<lparr>c_cuts := None, c_layers := None, c_layers_visible := None,
                 c_visible_widgets := None, c_visible_map := None,
                 c_root := Some parent, c_size := size'\<rparr>;
          old_map = c_full_map s1;
          old_widgets = set (map fst old_map);
          (map1, widgets) = arrange_root parent size' True;
          new_widgets = set (map fst map1);
          s2 = s1\<lparr>c_full_map := map1, c_widgets := widgets\<rparr>;
          changes = items_xor map1 old_map;
          common_widgets = old_widgets \<inter> new_widgets;
          screen_region = size_region size';
          s3 = mark_dirty screen_region changes s2;
          resized_widgets =
            set [widget.
                   (widget, map_geometry) \<leftarrow> changes,
                   widget \<in> common_widgets \<and>
                   (case map_of old_map widget of
                      None \<Rightarrow> False
                    | Some old \<Rightarrow>
                        region_size (geo_region old) \<noteq> region_size (geo_region map_geometry))];
          shown_widgets = new_widgets - old_widgets;
          hidden_widgets = c_widgets s3 - widgets
      in (ReflowResult hidden_widgets shown_widgets resized_widgets, s3))"

definition reflow_visible :: "Widget \<Rightarrow> Size \<Rightarrow> Compositor \<Rightarrow> nat set \<times> Compositor" where
  "reflow_visible parent size' s =
     (let s1 = s\<lparr>c_cuts := None, c_layers := None, c_layers_visible := None,
                 c_visible_widgets := None, c_full_map_invalidated := True,
                 c_root := Some parent, c_size := size'\<rparr>;
          old_map = (case c_visible_map s1 of Some m \<Rightarrow> m | None \<Rightarrow> c_full_map s1);
          (map1, widgets) = arrange_root parent size' True;
          s2 = s1\<lparr>c_visible_map := Some map1, c_widgets := widgets\<rparr>;
          exposed_widgets = set (map fst map1) - set (map fst old_map);
          changes = items_xor map1 old_map;
          screen_region = size_region size';
          s3 = mark_dirty screen_region changes s2
      in (exposed_widgets, s3))"

text \<open>
  The property \<^verbatim>\<open>full_map\<close>.
\<close>

definition full_map :: "Compositor \<Rightarrow> CompositorMap \<times> Compositor" where
  "full_map s =
     (case c_root s of
        None \<Rightarrow> ([], s)
      | Some root' \<Rightarrow>
          if c_full_map_invalidated s then
            (let s1 = s\<lparr>c_full_map_invalidated := False\<rparr>;
                 (map1, widgets) = arrange_root root' (c_size s1) False;
                 s2 = s1\<lparr>c_full_map := map1, c_visible_widgets := None, c_visible_map := None\<rparr>
             in (c_full_map s2, s2))
          else (c_full_map s, s))"

text \<open>
  Widgets for the examples: a leaf, a scrollable container with its placements and scrollbar
  chrome (the vertical scrollbar is enabled when there is chrome), and a placement without
  margin on layer order 0.
\<close>

definition leaf :: "nat \<Rightarrow> Widget" where
  "leaf i = Widget i None None (Spacing 0 0 0 0) False False (\<lambda>region. region)
     (ArrangeResult [] {} (Region 0 0 0 0) (Spacing 0 0 0 0)) (Offset 0 0) [] [] (False, False) []"

definition container :: "nat \<Rightarrow> WidgetPlacement list \<Rightarrow> (nat \<times> Region) list \<Rightarrow> Widget" where
  "container i placements chrome =
     Widget i None None (Spacing 0 0 0 0) True True (\<lambda>region. region)
       (ArrangeResult placements (set (map (\<lambda>p. w_id (p_widget p)) placements))
          (Region 0 0 0 0) (Spacing 0 0 0 0))
       (Offset 0 0) [] [] (chrome \<noteq> [], False) chrome"

definition place :: "Region \<Rightarrow> Widget \<Rightarrow> WidgetPlacement" where
  "place region widget = WidgetPlacement region (Spacing 0 0 0 0) widget 0 False"

text \<open>
  The scrollbar chrome widgets of a widget tree: the widgets returned by
  \<^verbatim>\<open>_arrange_scrollbars\<close> of the widget and of every widget placed below it.
\<close>

fun chrome_ids :: "Widget \<Rightarrow> nat set"
and placements_chrome_ids :: "WidgetPlacement list \<Rightarrow> nat set" where
  "chrome_ids (Widget i v off g sc co gsr (ArrangeResult ps ws tr ss) so ls l sb chrome) =
     fst ` set chrome \<union> placements_chrome_ids ps"
| "placements_chrome_ids [] = {}"
| "placements_chrome_ids (WidgetPlacement r m w z f # rest) =
     chrome_ids w \<union> placements_chrome_ids rest"

text \<open>
  What an arrangement step does to the pair of map and widget set, as far as the keys go:
  the set of widgets only grows, and every key of the new map is a key of the old map, a
  widget of the new set or one of the given chrome widgets.
\<close>

definition keys_inv :: "nat set \<Rightarrow> CompositorMap \<times> nat set \<Rightarrow> CompositorMap \<times> nat set \<Rightarrow> bool" where
  "keys_inv chrome st st' =
     (snd st \<subseteq> snd st' \<and> fst ` set (fst st') \<subseteq> fst ` set (fst st) \<union> snd st' \<union> chrome)"

text \<open>
  Widget trees for the examples: a scrollable root with a vertical scrollbar (chrome widget 9);
  a root with one child in view and one below the screen; a root with one child; a root alone.
\<close>

definition scroll_root :: Widget where
  "scroll_root = container 1 [] [(9, Region 9 0 1 3)]"

definition two_rows :: Widget where
  "two_rows = container 1 [place (Region 2 1 5 1) (leaf 2), place (Region 0 5 5 1) (leaf 3)] []"

definition one_child :: Widget where
  "one_child = container 1 [place (Region 2 1 5 1) (leaf 2)] []"

definition no_child :: Widget where
  "no_child = container 1 [] []"

text \<open>
  Painting orders in a map.  Chrome widgets (the set \<open>C\<close>) are left out throughout.
  \<open>no_entry C R m\<close>: no entry of \<open>m\<close> has an order in \<open>R\<close>; \<open>written C R m m'\<close>: every entry of
  \<open>m'\<close> is an entry of \<open>m\<close> or has an order in \<open>R\<close>; \<open>orders_inv C m\<close>: the keys of \<open>m\<close> are
  distinct and different keys have different orders; \<open>below ord lo\<close>: the orders that extend
  \<open>ord\<close> by a triple whose sibling order is at most \<open>lo\<close>, that is, the orders that the loop over
  the placements hands out from \<open>lo\<close> downwards.
\<close>

definition no_entry :: "nat set \<Rightarrow> ((int \<times> int \<times> int) list \<Rightarrow> bool) \<Rightarrow> CompositorMap \<Rightarrow> bool" where
  "no_entry C R m = (\<forall>k g. map_of m k = Some g \<longrightarrow> k \<notin> C \<longrightarrow> \<not> R (geo_order g))"

definition written ::
  "nat set \<Rightarrow> ((int \<times> int \<times> int) list \<Rightarrow> bool) \<Rightarrow> CompositorMap \<Rightarrow> CompositorMap \<Rightarrow> bool" where
  "written C R m m' =
     (\<forall>k g. map_of m' k = Some g \<longrightarrow> k \<notin> C \<longrightarrow> map_of m k = Some g \<or> R (geo_order g))"

definition orders_inv :: "nat set \<Rightarrow> CompositorMap \<Rightarrow> bool" where
  "orders_inv C m =
     (distinct (map fst m) \<and>
      (\<forall>k1 k2 g1 g2. map_of m k1 = Some g1 \<longrightarrow> map_of m k2 = Some g2 \<longrightarrow> k1 \<noteq> k2 \<longrightarrow>
         k1 \<notin> C \<longrightarrow> k2 \<notin> C \<longrightarrow> geo_order g1 \<noteq> geo_order g2))"

definition below :: "(int \<times> int \<times> int) list \<Rightarrow> int \<Rightarrow> (int \<times> int \<times> int) list \<Rightarrow> bool" where
  "below ord lo ord' = (\<exists>li z l. l \<le> lo \<and> prefix (ord @ [(li, z, l)]) ord')"

section \<open>Chops and updates\<close>

text \<open>
  The chops of a row: a dictionary from each cut column but the last to the strip painted
  there, or to \<^verbatim>\<open>None\<close>; \<^verbatim>\<open>dict.fromkeys\<close> builds it empty.
\<close>

type_synonym 'c chops = "(int \<times> 'c list option) list list"

definition fromkeys :: "int list \<Rightarrow> (int \<times> 'c list option) list" where
  "fromkeys ks = fold (\<lambda>k d. AList.update k None d) ks []"

text \<open>
  Modelled from the spec: \<^verbatim>\<open>Strip.divide\<close>, \<^verbatim>\<open>Strip.join\<close> and \<^verbatim>\<open>Region.from_union\<close> are not part
  of the sources at hand.  The spec: slice the strip at the interior cut positions (relative to
  \<^verbatim>\<open>render_x\<close>), one fragment per cut, each from the previous cut (first from 0); join each
  row's chop fragments in cut order into one strip; crop = union of all dirty regions (the
  bounding box; it is only called on a non-empty collection).
\<close>

definition divide :: "int list \<Rightarrow> 'c list \<Rightarrow> 'c list list" where
  "divide relative_cuts strip =
     map (\<lambda>(a, b). take (nat (b - a)) (drop (nat a) strip)) (zip (0 # relative_cuts) relative_cuts)"

definition strip_join :: "'c list option list \<Rightarrow> 'c list" where
  "strip_join strips = concat (map (\<lambda>strip. case strip of None \<Rightarrow> [] | Some cells \<Rightarrow> cells) strips)"

fun from_union :: "Region list \<Rightarrow> Region" where
  "from_union [] = Region 0 0 0 0"
| "from_union (region # regions) = fold (\<lambda>r bounds. region_union bounds r) regions region"

text \<open>
  \<^verbatim>\<open>_render_chops\<close>.  \<open>write_cuts\<close> is the innermost loop over \<^verbatim>\<open>zip(final_cuts, cut_strips)\<close>,
  which writes a strip only into a slot that holds \<^verbatim>\<open>None\<close>; looking up a cut that is no key
  raises.  \<open>render_line\<close> is the body of the loop over the lines of one render, after the test
  of \<^verbatim>\<open>is_rendered_line\<close>; \<open>render_strips\<close> is that loop and \<open>render_renders\<close> the loop over the
  renders.
\<close>

fun write_cuts ::
  "(int \<times> 'c list) list \<Rightarrow> (int \<times> 'c list option) list \<Rightarrow> error + (int \<times> 'c list option) list" where
  "write_cuts [] chops_line = Inr chops_line"
| "write_cuts ((cut', strip) # rest) chops_line =
     (case map_of chops_line cut' of
        None \<Rightarrow> Inl KeyError
      | Some None \<Rightarrow> write_cuts rest (AList.update cut' (Some strip) chops_line)
      | Some (Some _) \<Rightarrow> write_cuts rest chops_line)"

definition render_line ::
  "int list list \<Rightarrow> Region \<Rightarrow> int \<Rightarrow> 'c list \<Rightarrow> 'c chops \<Rightarrow> error + 'c chops" where
  "render_line cuts' render_region y strip chops =
     (case py_index y (length chops) of
        None \<Rightarrow> Inl IndexError
      | Some k \<Rightarrow>
          (case py_index y (length cuts') of
             None \<Rightarrow> Inl IndexError
           | Some k' \<Rightarrow>
               (let chops_line = chops ! k;
                    (first_cut, last_cut) = column_span render_region;
                    cuts_line = cuts' ! k';
                    final_cuts = filter (\<lambda>cut. last_cut \<ge> cut \<and> cut \<ge> first_cut) cuts_line;
                    cut_strips =
                      (if length final_cuts \<le> 2 then [strip]
                       else (let render_x = reg_x render_region;
                                 relative_cuts = map (\<lambda>cut. cut - render_x) (tl final_cuts)
                             in divide relative_cuts strip))
                in case write_cuts (zip final_cuts cut_strips) chops_line of
                     Inl e \<Rightarrow> Inl e
                   | Inr chops_line' \<Rightarrow> Inr (chops[k := chops_line']))))"

fun render_strips ::
  "(int \<Rightarrow> bool) \<Rightarrow> int list list \<Rightarrow> Region \<Rightarrow> (int \<times> 'c list) list \<Rightarrow> 'c chops \<Rightarrow>
   error + 'c chops" where
  "render_strips is_rendered_line cuts' render_region [] chops = Inr chops"
| "render_strips is_rendered_line cuts' render_region ((y, strip) # rest) chops =
     (if \<not> is_rendered_line y then render_strips is_rendered_line cuts' render_region rest chops
      else (case render_line cuts' render_region y strip chops of
              Inl e \<Rightarrow> Inl e
            | Inr chops' \<Rightarrow> render_strips is_rendered_line cuts' render_region rest chops'))"

fun render_renders ::
  "(int \<Rightarrow> bool) \<Rightarrow> int list list \<Rightarrow> (Region \<times> Region \<times> 'c list list) list \<Rightarrow> 'c chops \<Rightarrow>
   error + 'c chops" where
  "render_renders is_rendered_line cuts' [] chops = Inr chops"
| "render_renders is_rendered_line cuts' ((region, clip, strips) # rest) chops =
     (let render_region = intersection region clip
      in case render_strips is_rendered_line cuts' render_region
                (zip (line_range render_region) strips) chops of
           Inl e \<Rightarrow> Inl e
         | Inr chops' \<Rightarrow> render_renders is_rendered_line cuts' rest chops')"

definition render_chops ::
  "(nat \<Rightarrow> real) \<Rightarrow> (nat \<Rightarrow> Region \<Rightarrow> 'c list list) \<Rightarrow> Region \<Rightarrow> (int \<Rightarrow> bool) \<Rightarrow> Compositor \<Rightarrow>
   (error + 'c chops) \<times> Compositor" where
  "render_chops opacity render_lines crop is_rendered_line s =
     (let (cuts', s1) = cuts s;
          chops = map (\<lambda>cut_set. fromkeys (butlast cut_set)) cuts';
          (renders, s2) = get_renders opacity render_lines (Some crop) s1
      in (render_renders is_rendered_line cuts' renders chops, s2))"

text \<open>
  The two renderables, with what their constructors receive, and the three entry points.
  The ambient screen stack that \<^verbatim>\<open>render_update\<close> sets is not modelled.
\<close>

datatype 'c update =
  LayoutUpdate "'c list list" Region
| ChopsUpdate "'c chops" "span list" "int list list"

definition render_full_update ::
  "(nat \<Rightarrow> real) \<Rightarrow> (nat \<Rightarrow> Region \<Rightarrow> 'c list list) \<Rightarrow> Compositor \<Rightarrow>
   (error + 'c update) \<times> Compositor" where
  "render_full_update opacity render_lines s =
     (let screen_region = size_region (c_size s);
          s1 = s\<lparr>c_dirty_regions := []\<rparr>;
          crop = screen_region;
          (result, s2) = render_chops opacity render_lines crop (\<lambda>y. True) s1
      in case result of
           Inl e \<Rightarrow> (Inl e, s2)
         | Inr chops \<Rightarrow>
             (Inr (LayoutUpdate (map (\<lambda>chop. strip_join (map snd chop)) chops) screen_region), s2))"

definition render_partial_update ::
  "(nat \<Rightarrow> real) \<Rightarrow> (nat \<Rightarrow> Region \<Rightarrow> 'c list list) \<Rightarrow> Compositor \<Rightarrow>
   (error + 'c update option) \<times> Compositor" where
  "render_partial_update opacity render_lines s =
     (let screen_region = size_region (c_size s);
          update_regions = c_dirty_regions s;
          s1 = s\<lparr>c_dirty_regions := []\<rparr>
      in if update_regions \<noteq> [] then
           (let crop = intersection (from_union update_regions) screen_region;
                spans = regions_to_spans update_regions;
                is_rendered_line = (\<lambda>y. y \<in> fst ` set spans);
                (result, s2) = render_chops opacity render_lines crop is_rendered_line s1
            in case result of
                 Inl e \<Rightarrow> (Inl e, s2)
               | Inr chops \<Rightarrow>
                   (let (cuts', s3) = cuts s2;
                        chop_ends = map tl cuts'
                    in (Inr (Some (ChopsUpdate chops spans chop_ends)), s3)))
         else (Inr None, s1))"

definition render_update ::
  "(nat \<Rightarrow> real) \<Rightarrow> (nat \<Rightarrow> Region \<Rightarrow> 'c list list) \<Rightarrow> bool \<Rightarrow> Compositor \<Rightarrow>
   (error + 'c update option) \<times> Compositor" where
  "render_update opacity render_lines full s =
     (let screen_region = size_region (c_size s)
      in if full \<or> screen_region \<in> set (c_dirty_regions s) then
           (case render_full_update opacity render_lines s of
              (Inl e, s') \<Rightarrow> (Inl e, s')
            | (Inr update, s') \<Rightarrow> (Inr (Some update), s'))
         else render_partial_update opacity render_lines s)"

text \<open>
  For the examples: a renderer whose cells name their widget and their position inside it,
  and three stacked widgets on a screen of 6 by 2: the root 1, widget 2 at (0, 0, 4, 2) and,
  in front, widget 3 at (2, 0, 4, 2).
\<close>

definition tagged_lines :: "nat \<Rightarrow> Region \<Rightarrow> (nat \<times> int \<times> int) list list" where
  "tagged_lines widget request =
     map (\<lambda>y. map (\<lambda>x. (widget, x, y)) [reg_x request .. reg_x request + reg_width request - 1])
       [reg_y request .. reg_y request + reg_height request - 1]"

definition stacked_state :: Compositor where
  "stacked_state = init\<lparr>
     c_full_map :=
       [(1, MapGeometry (Region 0 0 6 2) [(0, 0, 0)] (Region 0 0 6 2) (Size 6 2) (Size 6 2)
              (Region 0 0 6 2)),
        (2, MapGeometry (Region 0 0 4 2) [(0, 0, 0), (0, 0, - 1)] (Region 0 0 6 2) (Size 4 2)
              (Size 4 2) (Region 0 0 4 2)),
        (3, MapGeometry (Region 2 0 4 2) [(0, 0, 0), (0, 0, 0)] (Region 0 0 6 2) (Size 4 2)
              (Size 4 2) (Region 2 0 4 2))],
     c_size := Size 6 2\<rparr>"

text \<open>
  The same screen with one dirty region, (1, 0, 2, 1).
\<close>

definition dirty_state :: Compositor where
  "dirty_state = stacked_state\<lparr>c_dirty_regions := [Region 1 0 2 1]\<rparr>"

section \<open>Properties of regions to spans\<close>

lemma lk_setdefault_append:
  "lk (setdefault_append y s d) y' = (if y' = y then lk d y' @ [s] else lk d y')"
  by (induction y s d rule: setdefault_append.induct) (auto simp: lk_def)

lemma keys_setdefault_append:
  "fst ` set (setdefault_append y s d) = insert y (fst ` set d)"
  by (induction y s d rule: setdefault_append.induct) auto

lemma distinct_setdefault_append:
  "distinct (map fst d) \<Longrightarrow> distinct (map fst (setdefault_append y s d))"
  by (induction y s d rule: setdefault_append.induct) (auto simp: keys_setdefault_append)

lemma lk_fold_rows:
  "distinct ys \<Longrightarrow> lk (fold (\<lambda>y. setdefault_append y s) ys d) y' =
     lk d y' @ (if y' \<in> set ys then [s] else [])"
  by (induction ys arbitrary: d) (auto simp: lk_setdefault_append)

lemma keys_fold_rows:
  "fst ` set (fold (\<lambda>y. setdefault_append y s) ys d) = set ys \<union> fst ` set d"
  by (induction ys arbitrary: d) (auto simp: keys_setdefault_append)

lemma distinct_fold_rows:
  "distinct (map fst d) \<Longrightarrow> distinct (map fst (fold (\<lambda>y. setdefault_append y s) ys d))"
  by (induction ys arbitrary: d) (auto simp: distinct_setdefault_append)

lemma lk_add_region_rows:
  "lk (add_region_rows r d) y = lk d y @ rows_of [r] y"
  by (cases r) (auto simp: lk_fold_rows rows_of_def)

lemma keys_add_region_rows:
  "fst ` set (add_region_rows r d) = {y. rows_of [r] y \<noteq> []} \<union> fst ` set d"
  by (cases r) (auto simp: keys_fold_rows rows_of_def)

lemma distinct_add_region_rows:
  "distinct (map fst d) \<Longrightarrow> distinct (map fst (add_region_rows r d))"
  by (cases r) (auto simp: distinct_fold_rows)

lemma rows_of_append: "rows_of (rs @ rs') y = rows_of rs y @ rows_of rs' y"
  by (simp add: rows_of_def)

lemma rows_of_Cons: "rows_of (r # rs) y = rows_of [r] y @ rows_of rs y"
  by (simp add: rows_of_def)

lemma lk_fold_regions:
  "lk (fold add_region_rows rs d) y = lk d y @ rows_of rs y"
proof (induction rs arbitrary: d)
  case Nil
  show ?case by (simp add: rows_of_def)
next
  case (Cons r rs)
  show ?case by (simp add: Cons.IH lk_add_region_rows rows_of_Cons[of r rs])
qed

lemma keys_fold_regions:
  "fst ` set (fold add_region_rows rs d) = {y. rows_of rs y \<noteq> []} \<union> fst ` set d"
proof (induction rs arbitrary: d)
  case Nil
  show ?case by (simp add: rows_of_def)
next
  case (Cons r rs)
  show ?case by (auto simp: Cons.IH keys_add_region_rows rows_of_Cons[of r rs])
qed

lemma distinct_fold_regions:
  "distinct (map fst d) \<Longrightarrow> distinct (map fst (fold add_region_rows rs d))"
  by (induction rs arbitrary: d) (auto simp: distinct_add_region_rows)

lemma distinct_inline_ranges: "distinct (map fst (inline_ranges_of rs))"
  by (simp add: inline_ranges_of_def distinct_fold_regions)

lemma inline_ranges_entry:
  assumes "(y, v) \<in> set (inline_ranges_of rs)"
  shows "v = rows_of rs y \<and> v \<noteq> []"
proof -
  have "map_of (inline_ranges_of rs) y = Some v"
    using assms distinct_inline_ranges by simp
  then have "lk (inline_ranges_of rs) y = v" by (simp add: lk_def)
  moreover have "lk [] y = []" by (simp add: lk_def)
  then have "lk (inline_ranges_of rs) y = rows_of rs y"
    by (simp add: inline_ranges_of_def lk_fold_regions)
  moreover have "y \<in> fst ` set (inline_ranges_of rs)" using assms by force
  then have "rows_of rs y \<noteq> []"
    by (simp add: inline_ranges_of_def keys_fold_regions)
  ultimately show ?thesis by simp
qed

lemma inline_ranges_key:
  "rows_of rs y \<noteq> [] \<Longrightarrow> (y, rows_of rs y) \<in> set (inline_ranges_of rs)"
proof -
  assume a: "rows_of rs y \<noteq> []"
  then have "y \<in> fst ` set (inline_ranges_of rs)"
    by (simp add: inline_ranges_of_def keys_fold_regions)
  then obtain v where "(y, v) \<in> set (inline_ranges_of rs)" by force
  then show ?thesis using inline_ranges_entry by blast
qed

lemma merge_ranges_row: "s \<in> set (merge_ranges y x1 x2 rs) \<Longrightarrow> fst s = y"
  by (induction y x1 x2 rs rule: merge_ranges.induct) (auto split: if_splits)

lemma merge_ranges_lower:
  "sorted ((x1, x2) # rs) \<Longrightarrow> s \<in> set (merge_ranges y x1 x2 rs) \<Longrightarrow> (x1, x2) \<le> snd s"
proof (induction y x1 x2 rs rule: merge_ranges.induct)
  case (1 y x1 x2)
  then show ?case by simp
next
  case (2 y x1 x2 next_x1 next_x2 ranges)
  have le: "(x1, x2) \<le> (next_x1, next_x2)" and all: "\<forall>p\<in>set ranges. (next_x1, next_x2) \<le> p"
    and srt: "sorted ranges"
    using "2.prems"(1) by auto
  show ?case
  proof (cases "next_x1 \<le> x2")
    case True
    show ?thesis
    proof (cases "next_x2 > x2")
      case gt: True
      have "\<forall>p\<in>set ranges. (x1, next_x2) \<le> p"
      proof
        fix p assume "p \<in> set ranges"
        then have "(next_x1, next_x2) \<le> p" using all by blast
        then show "(x1, next_x2) \<le> p" using le by (cases p) (auto simp: less_eq_prod_def)
      qed
      then have "sorted ((x1, next_x2) # ranges)" using srt by simp
      moreover have "s \<in> set (merge_ranges y x1 next_x2 ranges)"
        using "2.prems"(2) True gt by simp
      ultimately have "(x1, next_x2) \<le> snd s" using "2.IH"(1) True gt by blast
      moreover have "(x1, x2) \<le> (x1, next_x2)" using gt by (simp add: less_eq_prod_def)
      ultimately show ?thesis by (rule order_trans[rotated])
    next
      case ng: False
      have "\<forall>p\<in>set ranges. (x1, x2) \<le> p" using all le order_trans by blast
      then have "sorted ((x1, x2) # ranges)" using srt by simp
      moreover have "s \<in> set (merge_ranges y x1 x2 ranges)"
        using "2.prems"(2) True ng by simp
      ultimately show ?thesis using "2.IH"(2) True ng by blast
    qed
  next
    case False
    then consider "s = (y, x1, x2)" | "s \<in> set (merge_ranges y next_x1 next_x2 ranges)"
      using "2.prems"(2) by auto
    then show ?thesis
    proof cases
      case 1
      then show ?thesis by simp
    next
      case 2
      have "sorted ((next_x1, next_x2) # ranges)" using srt all by simp
      then have "(next_x1, next_x2) \<le> snd s" using "2.IH"(3) False 2 by blast
      then show ?thesis using le by (rule order_trans[rotated])
    qed
  qed
qed


lemma sorted_merge_step:
  assumes "sorted ((x1, x2) # (next_x1, next_x2) # ranges)"
  shows "sorted ((next_x1, next_x2) # ranges)"
    and "sorted ((x1, x2) # ranges)"
    and "x2 < next_x2 \<Longrightarrow> sorted ((x1, next_x2) # ranges)"
    and "x1 \<le> next_x1"
proof -
  have le: "(x1, x2) \<le> (next_x1, next_x2)" and all: "\<forall>p\<in>set ranges. (next_x1, next_x2) \<le> p"
    and srt: "sorted ranges"
    using assms by auto
  show "sorted ((next_x1, next_x2) # ranges)" using all srt by simp
  have "\<forall>p\<in>set ranges. (x1, x2) \<le> p" using all le order_trans by blast
  then show "sorted ((x1, x2) # ranges)" using srt by simp
  show "x1 \<le> next_x1" using le by (auto simp: less_eq_prod_def)
  show "sorted ((x1, next_x2) # ranges)" if "x2 < next_x2"
  proof -
    have "\<forall>p\<in>set ranges. (x1, next_x2) \<le> p"
    proof
      fix p assume "p \<in> set ranges"
      then have "(next_x1, next_x2) \<le> p" using all by blast
      then show "(x1, next_x2) \<le> p" using le by (cases p) (auto simp: less_eq_prod_def)
    qed
    then show ?thesis using srt by simp
  qed
qed

lemma merge_ranges_sorted:
  "sorted ((x1, x2) # rs) \<Longrightarrow> sorted (merge_ranges y x1 x2 rs)"
proof (induction y x1 x2 rs rule: merge_ranges.induct)
  case (1 y x1 x2)
  show ?case by simp
next
  case (2 y x1 x2 next_x1 next_x2 ranges)
  note st = sorted_merge_step[OF "2.prems"]
  show ?case
  proof (cases "next_x1 \<le> x2")
    case True
    then show ?thesis using "2.IH"(1,2) st by (cases "next_x2 > x2") auto
  next
    case False
    have "(y, x1, x2) \<le> s" if "s \<in> set (merge_ranges y next_x1 next_x2 ranges)" for s
    proof -
      have "fst s = y" using that by (rule merge_ranges_row)
      moreover have "(next_x1, next_x2) \<le> snd s"
        using merge_ranges_lower[OF st(1) that] .
      moreover have "(x1, x2) \<le> (next_x1, next_x2)" using "2.prems" by simp
      ultimately have "(x1, x2) \<le> snd s" by (meson order_trans)
      then show ?thesis using \<open>fst s = y\<close> by (cases s) (auto simp: less_eq_prod_def)
    qed
    then show ?thesis using False "2.IH"(3) st(1) by auto
  qed
qed

lemma merge_ranges_gaps:
  "sorted ((x1, x2) # rs) \<Longrightarrow>
   sorted_wrt (\<lambda>s t. snd (snd s) < fst (snd t)) (merge_ranges y x1 x2 rs)"
proof (induction y x1 x2 rs rule: merge_ranges.induct)
  case (1 y x1 x2)
  show ?case by simp
next
  case (2 y x1 x2 next_x1 next_x2 ranges)
  note st = sorted_merge_step[OF "2.prems"]
  show ?case
  proof (cases "next_x1 \<le> x2")
    case True
    then show ?thesis using "2.IH"(1,2) st by (cases "next_x2 > x2") auto
  next
    case False
    have "x2 < fst (snd s)" if "s \<in> set (merge_ranges y next_x1 next_x2 ranges)" for s
    proof -
      have "(next_x1, next_x2) \<le> snd s"
        using merge_ranges_lower[OF st(1) that] .
      then have "next_x1 \<le> fst (snd s)" by (cases s) (auto simp: less_eq_prod_def)
      then show ?thesis using False by simp
    qed
    then show ?thesis using False "2.IH"(3) st(1) by auto
  qed
qed

lemma merge_ranges_cells:
  "sorted ((x1, x2) # rs) \<Longrightarrow>
   (\<exists>s\<in>set (merge_ranges y x1 x2 rs). span_contains s x yy) =
   (yy = y \<and> (\<exists>p\<in>set ((x1, x2) # rs). fst p \<le> x \<and> x < snd p))"
proof (induction y x1 x2 rs rule: merge_ranges.induct)
  case (1 y x1 x2)
  show ?case by auto
next
  case (2 y x1 x2 next_x1 next_x2 ranges)
  note st = sorted_merge_step[OF "2.prems"]
  show ?case
  proof (cases "next_x1 \<le> x2")
    case True
    show ?thesis
    proof (cases "next_x2 > x2")
      case gt: True
      have "(\<exists>s\<in>set (merge_ranges y x1 next_x2 ranges). span_contains s x yy) =
        (yy = y \<and> (\<exists>p\<in>set ((x1, next_x2) # ranges). fst p \<le> x \<and> x < snd p))"
        using "2.IH"(1) True gt st(3) by blast
      then show ?thesis using True gt st(4) by auto
    next
      case ng: False
      have "(\<exists>s\<in>set (merge_ranges y x1 x2 ranges). span_contains s x yy) =
        (yy = y \<and> (\<exists>p\<in>set ((x1, x2) # ranges). fst p \<le> x \<and> x < snd p))"
        using "2.IH"(2) True ng st(2) by blast
      then show ?thesis using True ng st(4) by auto
    qed
  next
    case False
    have "(\<exists>s\<in>set (merge_ranges y next_x1 next_x2 ranges). span_contains s x yy) =
        (yy = y \<and> (\<exists>p\<in>set ((next_x1, next_x2) # ranges). fst p \<le> x \<and> x < snd p))"
      using "2.IH"(3) False st(1) by blast
    then show ?thesis using False by auto
  qed
qed

lemma row_spans_merge:
  assumes "v \<noteq> []"
  shows "\<exists>x1 x2 rest. sort v = (x1, x2) # rest \<and> row_spans (y, v) = merge_ranges y x1 x2 rest"
proof (cases "length v = 1")
  case True
  then obtain p where "v = [p]" by (cases v) auto
  then show ?thesis by (cases p) simp
next
  case False
  have "sort v \<noteq> []" using assms by (metis length_0_conv length_sort)
  then obtain x1 x2 rest where "sort v = (x1, x2) # rest" by (cases "sort v") auto
  then show ?thesis using False by simp
qed

lemma row_spans_row:
  assumes "s \<in> set (row_spans (y, v))"
  shows "fst s = y"
proof (cases "v = []")
  case True
  then show ?thesis using assms by simp
next
  case False
  then obtain x1 x2 rest where "row_spans (y, v) = merge_ranges y x1 x2 rest"
    using row_spans_merge[of v y] by blast
  then show ?thesis using assms merge_ranges_row by simp
qed

lemma row_spans_sorted:
  assumes "v \<noteq> []"
  shows "sorted (row_spans (y, v))"
proof -
  obtain x1 x2 rest where s: "sort v = (x1, x2) # rest"
    and r: "row_spans (y, v) = merge_ranges y x1 x2 rest"
    using row_spans_merge[OF assms] by blast
  have "sorted (sort v)" by simp
  then have "sorted ((x1, x2) # rest)" unfolding s .
  then show ?thesis unfolding r by (rule merge_ranges_sorted)
qed

lemma row_spans_gaps:
  assumes "v \<noteq> []"
  shows "sorted_wrt (\<lambda>s t. snd (snd s) < fst (snd t)) (row_spans (y, v))"
proof -
  obtain x1 x2 rest where s: "sort v = (x1, x2) # rest"
    and r: "row_spans (y, v) = merge_ranges y x1 x2 rest"
    using row_spans_merge[OF assms] by blast
  have "sorted (sort v)" by simp
  then have "sorted ((x1, x2) # rest)" unfolding s .
  then show ?thesis unfolding r by (rule merge_ranges_gaps)
qed

lemma row_spans_cells:
  assumes "v \<noteq> []"
  shows "(\<exists>s\<in>set (row_spans (y, v)). span_contains s x yy) =
     (yy = y \<and> (\<exists>p\<in>set v. fst p \<le> x \<and> x < snd p))"
proof -
  obtain x1 x2 rest where s: "sort v = (x1, x2) # rest"
    and r: "row_spans (y, v) = merge_ranges y x1 x2 rest"
    using row_spans_merge[OF assms] by blast
  have "sorted (sort v)" by simp
  then have "sorted ((x1, x2) # rest)" unfolding s .
  from merge_ranges_cells[OF this, of y x yy]
  have "(\<exists>s\<in>set (row_spans (y, v)). span_contains s x yy) =
     (yy = y \<and> (\<exists>p\<in>set (sort v). fst p \<le> x \<and> x < snd p))"
    by (simp only: r s)
  then show ?thesis by simp
qed

lemma sorted_wrt_concat_map:
  "sorted_wrt P (concat (map f xs)) =
     ((\<forall>x\<in>set xs. sorted_wrt P (f x)) \<and>
      sorted_wrt (\<lambda>a b. \<forall>s\<in>set (f a). \<forall>t\<in>set (f b). P s t) xs)"
  by (induction xs) (auto simp: sorted_wrt_append)

lemma sorted_rows:
  "sorted_wrt (\<lambda>a b. fst a < fst b) (sort_key fst (inline_ranges_of rs))"
proof -
  let ?ks = "sort_key fst (inline_ranges_of rs)"
  have "sorted (map fst ?ks)" by simp
  moreover have "distinct (map fst ?ks)"
    using distinct_inline_ranges[of rs] by (simp add: distinct_map inj_on_def)
  ultimately have "sorted_wrt (<) (map fst ?ks)" by (simp add: strict_sorted_iff)
  then show ?thesis by (simp add: sorted_wrt_map)
qed

lemma rows_nonempty:
  "a \<in> set (sort_key fst (inline_ranges_of rs)) \<Longrightarrow> snd a = rows_of rs (fst a) \<and> snd a \<noteq> []"
  using inline_ranges_entry[of "fst a" "snd a" rs] by auto

lemma row_spans_rows_lt:
  assumes "fst a < fst b" "s \<in> set (row_spans a)" "t \<in> set (row_spans b)"
  shows "fst s < fst t"
  using assms row_spans_row[of s "fst a" "snd a"] row_spans_row[of t "fst b" "snd b"] by simp

lemma regions_to_spans_sorted: "sorted (regions_to_spans rs)"
proof -
  let ?ks = "sort_key fst (inline_ranges_of rs)"
  have 1: "\<forall>a\<in>set ?ks. sorted (row_spans a)"
  proof
    fix a assume "a \<in> set ?ks"
    then have "snd a \<noteq> []" using rows_nonempty by blast
    from row_spans_sorted[OF this, of "fst a"] show "sorted (row_spans a)" by simp
  qed
  have 2: "sorted_wrt (\<lambda>a b. \<forall>s\<in>set (row_spans a). \<forall>t\<in>set (row_spans b). s \<le> t) ?ks"
  proof (rule sorted_wrt_mono_rel[OF _ sorted_rows])
    fix a b :: "int \<times> (int \<times> int) list"
    assume lt: "fst a < fst b"
    show "\<forall>s\<in>set (row_spans a). \<forall>t\<in>set (row_spans b). s \<le> t"
    proof (intro ballI)
      fix s t assume "s \<in> set (row_spans a)" "t \<in> set (row_spans b)"
      then have "fst s < fst t" using lt by (rule row_spans_rows_lt[rotated])
      then show "s \<le> t" by (simp add: less_eq_prod_def)
    qed
  qed
  have "sorted (concat (map row_spans ?ks))"
    by (subst sorted_wrt_concat_map) (use 1 2 in blast)
  then show ?thesis by (simp only: regions_to_spans_def)
qed

lemma regions_to_spans_before: "sorted_wrt span_before (regions_to_spans rs)"
proof -
  let ?ks = "sort_key fst (inline_ranges_of rs)"
  have 1: "\<forall>a\<in>set ?ks. sorted_wrt span_before (row_spans a)"
  proof
    fix a assume a: "a \<in> set ?ks"
    then have ne: "snd a \<noteq> []" using rows_nonempty by blast
    have g: "sorted_wrt (\<lambda>s t. snd (snd s) < fst (snd t)) (row_spans a)"
      using row_spans_gaps[OF ne, of "fst a"] by simp
    show "sorted_wrt span_before (row_spans a)"
    proof (rule sorted_wrt_mono_rel[OF _ g])
      fix s t assume "s \<in> set (row_spans a)" "t \<in> set (row_spans a)" "snd (snd s) < fst (snd t)"
      then show "span_before s t"
        using row_spans_row[of s "fst a" "snd a"] row_spans_row[of t "fst a" "snd a"]
        by (simp add: span_before_def)
    qed
  qed
  have 2: "sorted_wrt (\<lambda>a b. \<forall>s\<in>set (row_spans a). \<forall>t\<in>set (row_spans b). span_before s t) ?ks"
  proof (rule sorted_wrt_mono_rel[OF _ sorted_rows])
    fix a b :: "int \<times> (int \<times> int) list"
    assume lt: "fst a < fst b"
    show "\<forall>s\<in>set (row_spans a). \<forall>t\<in>set (row_spans b). span_before s t"
    proof (intro ballI)
      fix s t assume "s \<in> set (row_spans a)" "t \<in> set (row_spans b)"
      then have "fst s < fst t" using lt by (rule row_spans_rows_lt[rotated])
      then show "span_before s t" by (simp add: span_before_def)
    qed
  qed
  have "sorted_wrt span_before (concat (map row_spans ?ks))"
    by (subst sorted_wrt_concat_map) (use 1 2 in blast)
  then show ?thesis by (simp only: regions_to_spans_def)
qed

lemma contains_iff:
  "contains r x y = (reg_y r \<le> y \<and> y < reg_y r + reg_height r \<and> reg_x r \<le> x \<and> x < reg_x r + reg_width r)"
  by (cases r) auto

lemma rows_of_cell:
  "(\<exists>p\<in>set (rows_of rs y). fst p \<le> x \<and> x < snd p) = (\<exists>r\<in>set rs. contains r x y)"
  by (auto simp: rows_of_def contains_iff)

lemma set_regions_to_spans:
  "set (regions_to_spans rs) = (\<Union>a\<in>set (inline_ranges_of rs). set (row_spans a))"
  by (simp add: regions_to_spans_def del: row_spans.simps)

lemma regions_to_spans_cells:
  "(\<exists>s\<in>set (regions_to_spans rs). span_contains s x y) = (\<exists>r\<in>set rs. contains r x y)"
proof
  assume "\<exists>s\<in>set (regions_to_spans rs). span_contains s x y"
  then obtain a s where a: "a \<in> set (inline_ranges_of rs)" and s: "s \<in> set (row_spans a)"
    and c: "span_contains s x y"
    unfolding set_regions_to_spans by blast
  obtain yy v where av: "a = (yy, v)" by (cases a)
  have v: "v = rows_of rs yy" "v \<noteq> []" using inline_ranges_entry a av by blast+
  have "yy = y \<and> (\<exists>p\<in>set v. fst p \<le> x \<and> x < snd p)"
    using row_spans_cells[OF v(2), of yy x y] s c av by blast
  then show "\<exists>r\<in>set rs. contains r x y" using v(1) rows_of_cell by blast
next
  assume "\<exists>r\<in>set rs. contains r x y"
  then have p: "\<exists>p\<in>set (rows_of rs y). fst p \<le> x \<and> x < snd p" using rows_of_cell by blast
  then have ne: "rows_of rs y \<noteq> []" by auto
  then have "(y, rows_of rs y) \<in> set (inline_ranges_of rs)" by (rule inline_ranges_key)
  moreover have "\<exists>s\<in>set (row_spans (y, rows_of rs y)). span_contains s x y"
    using row_spans_cells[OF ne, of y x y] p by blast
  ultimately show "\<exists>s\<in>set (regions_to_spans rs). span_contains s x y"
    unfolding set_regions_to_spans by blast
qed

lemma merge_ranges_step:
  "merge_ranges y x1 x2 ((next_x1, next_x2) # ranges) =
     (if next_x1 \<le> x2 then merge_ranges y x1 (max x2 next_x2) ranges
      else (y, x1, x2) # merge_ranges y next_x1 next_x2 ranges)"
  by (simp add: max_def)

lemma two_regions_row:
  assumes "(a, a + w) \<le> (b, b + v)"
  shows "regions_to_spans [Region a y w 1, Region b y v 1] =
     (if b \<le> a + w then [(y, a, max (a + w) (b + v))] else [(y, a, a + w), (y, b, b + v)])"
proof -
  have "inline_ranges_of [Region a y w 1, Region b y v 1] = [(y, [(a, a + w), (b, b + v)])]"
    by (simp add: inline_ranges_of_def)
  moreover have "sort [(a, a + w), (b, b + v)] = [(a, a + w), (b, b + v)]"
    using assms by (simp add: sort_key_id_if_sorted)
  ultimately show ?thesis by (simp add: regions_to_spans_def max_def)
qed

text \<open>
  Claim C2.  For every list of regions, \<^verbatim>\<open>_regions_to_spans\<close> yields a sorted sequence of spans
  (y, x1, x2); a cell lies in some yielded span exactly when it lies in some input region; two
  spans yielded for the same row are strictly apart, so no cell lies in both; and the running
  interval is merged with the next interval exactly when the next interval's left edge is at
  most the running right edge (otherwise the running interval is yielded on its own), which for
  two one-row regions on the same row gives one span or two.
\<close>

theorem regions_to_spans_partition:
  "sorted (regions_to_spans regions) \<and>
   (\<forall>x y. (\<exists>s\<in>set (regions_to_spans regions). span_contains s x y) =
           (\<exists>r\<in>set regions. contains r x y)) \<and>
   (\<forall>i j. i < j \<longrightarrow> j < length (regions_to_spans regions) \<longrightarrow>
      fst (regions_to_spans regions ! i) = fst (regions_to_spans regions ! j) \<longrightarrow>
        snd (snd (regions_to_spans regions ! i)) < fst (snd (regions_to_spans regions ! j)) \<and>
        (\<forall>x y. \<not> (span_contains (regions_to_spans regions ! i) x y \<and>
                   span_contains (regions_to_spans regions ! j) x y))) \<and>
   (\<forall>y x1 x2 next_x1 next_x2 ranges.
      merge_ranges y x1 x2 ((next_x1, next_x2) # ranges) =
        (if next_x1 \<le> x2 then merge_ranges y x1 (max x2 next_x2) ranges
         else (y, x1, x2) # merge_ranges y next_x1 next_x2 ranges)) \<and>
   (\<forall>y a w b v. (a, a + w) \<le> (b, b + v) \<longrightarrow>
      regions_to_spans [Region a y w 1, Region b y v 1] =
        (if b \<le> a + w then [(y, a, max (a + w) (b + v))]
         else [(y, a, a + w), (y, b, b + v)]))"
proof (intro conjI allI impI)
  show "sorted (regions_to_spans regions)" by (rule regions_to_spans_sorted)
next
  fix x y
  show "(\<exists>s\<in>set (regions_to_spans regions). span_contains s x y) =
        (\<exists>r\<in>set regions. contains r x y)"
    by (rule regions_to_spans_cells)
next
  fix i j
  assume ij: "i < j" "j < length (regions_to_spans regions)"
    and row: "fst (regions_to_spans regions ! i) = fst (regions_to_spans regions ! j)"
  have "span_before (regions_to_spans regions ! i) (regions_to_spans regions ! j)"
    using regions_to_spans_before[of regions] ij by (simp add: sorted_wrt_iff_nth_less)
  then show gap: "snd (snd (regions_to_spans regions ! i)) < fst (snd (regions_to_spans regions ! j))"
    using row by (simp add: span_before_def)
  fix x y
  show "\<not> (span_contains (regions_to_spans regions ! i) x y \<and>
            span_contains (regions_to_spans regions ! j) x y)"
    using gap by (cases "regions_to_spans regions ! i"; cases "regions_to_spans regions ! j") auto
next
  fix y x1 x2 next_x1 next_x2 ranges
  show "merge_ranges y x1 x2 ((next_x1, next_x2) # ranges) =
        (if next_x1 \<le> x2 then merge_ranges y x1 (max x2 next_x2) ranges
         else (y, x1, x2) # merge_ranges y next_x1 next_x2 ranges)"
    by (rule merge_ranges_step)
next
  fix y a w b v :: int
  assume "(a, a + w) \<le> (b, b + v)"
  then show "regions_to_spans [Region a y w 1, Region b y v 1] =
        (if b \<le> a + w then [(y, a, max (a + w) (b + v))]
         else [(y, a, a + w), (y, b, b + v)])"
    by (rule two_regions_row)
qed

lemma spans_example:
  "regions_to_spans [Region 0 0 5 1, Region 6 0 2 1, Region 3 0 5 1, Region 9 0 1 2] =
     [(0, 0, 8), (0, 9, 10), (1, 9, 10)]"
  by code_simp

theorem regions_to_spans_partition_witness:
  "regions_to_spans [Region 0 0 5 1, Region 6 0 2 1, Region 3 0 5 1, Region 9 0 1 2] =
     [(0, 0, 8), (0, 9, 10), (1, 9, 10)] \<and>
   sorted (regions_to_spans [Region 0 0 5 1, Region 6 0 2 1, Region 3 0 5 1, Region 9 0 1 2]) \<and>
   (\<exists>r\<in>set [Region 0 0 5 1, Region 6 0 2 1, Region 3 0 5 1, Region 9 0 1 2]. contains r 7 0) \<and>
   (\<exists>s\<in>set (regions_to_spans [Region 0 0 5 1, Region 6 0 2 1, Region 3 0 5 1, Region 9 0 1 2]).
      span_contains s 7 0) \<and>
   (0::nat) < 1 \<and>
   snd (snd (regions_to_spans [Region 0 0 5 1, Region 6 0 2 1, Region 3 0 5 1, Region 9 0 1 2] ! 0))
     < fst (snd (regions_to_spans [Region 0 0 5 1, Region 6 0 2 1, Region 3 0 5 1, Region 9 0 1 2] ! 1)) \<and>
   ((0::int), 0 + 5) \<le> (3, 3 + 5) \<and>
   regions_to_spans [Region 0 0 5 1, Region 3 0 5 1] = [(0, 0, 8)]"
  using regions_to_spans_partition
          [of "[Region 0 0 5 1, Region 6 0 2 1, Region 3 0 5 1, Region 9 0 1 2]"]
        spans_example
  by (simp add: less_eq_prod_def)

section \<open>Properties of the cuts\<close>

lemma length_extend_rows [simp]: "length (extend_rows a b rc cs) = length cs"
  by simp

lemma nth_extend_rows:
  "i < length cs \<Longrightarrow>
   extend_rows a b rc cs ! i = (if a \<le> i \<and> i < b then cs ! i @ rc else cs ! i)"
  by simp

lemma contains_region_screen:
  "contains_region (Region 0 0 width height) r =
     (0 \<le> reg_x r \<and> reg_x r \<le> width \<and> 0 \<le> reg_y r \<and> reg_y r \<le> height \<and>
      0 \<le> reg_x r + reg_width r \<and> reg_x r + reg_width r \<le> width \<and>
      0 \<le> reg_y r + reg_height r \<and> reg_y r + reg_height r \<le> height)"
  by (cases r) (auto simp: Let_def)

lemma length_add_cuts [simp]: "length (add_cuts screen rc cs) = length cs"
  by (cases rc) (simp add: Let_def del: extend_rows.simps)

lemma nth_add_cuts:
  assumes "i < length cs" "length cs = nat height"
  shows "set (add_cuts (size_region (Size width height)) rc cs ! i) =
     set (cs ! i) \<union> {c. cut_edge (size_region (Size width height)) i c rc}"
proof -
  obtain region0 clip where rc: "rc = (region0, clip)" by (cases rc)
  let ?r = "intersection region0 clip"
  let ?screen = "size_region (Size width height)"
  show ?thesis
  proof (cases "region_bool ?r \<and> contains_region ?screen ?r")
    case False
    then show ?thesis by (auto simp: rc cut_edge_def Let_def simp del: extend_rows.simps)
  next
    case True
    then have b: "0 \<le> reg_y ?r" "reg_y ?r \<le> height" "0 \<le> reg_y ?r + reg_height ?r"
      "reg_y ?r + reg_height ?r \<le> height"
      by (simp_all add: contains_region_screen)
    have s1: "py_slice_index (reg_y ?r) (length cs) = nat (reg_y ?r)"
      using b assms(2) by (simp add: py_slice_index_def min_def)
    have s2: "py_slice_index (reg_y ?r + reg_height ?r) (length cs) = nat (reg_y ?r + reg_height ?r)"
      using b assms(2) by (simp add: py_slice_index_def min_def)
    have row: "(nat (reg_y ?r) \<le> i \<and> i < nat (reg_y ?r + reg_height ?r)) =
        (reg_y ?r \<le> int i \<and> int i < reg_y ?r + reg_height ?r)"
      using b by auto
    have "add_cuts ?screen rc cs ! i =
        (if reg_y ?r \<le> int i \<and> int i < reg_y ?r + reg_height ?r
         then cs ! i @ [reg_x ?r, reg_x ?r + reg_width ?r] else cs ! i)"
      using True assms(1) unfolding rc
      by (simp add: Let_def s1 s2 row nth_extend_rows del: extend_rows.simps)
    then show ?thesis using True by (auto simp: rc cut_edge_def Let_def)
  qed
qed

lemma length_fold_add_cuts [simp]: "length (fold (add_cuts screen) rcs cs) = length cs"
  by (induction rcs arbitrary: cs) simp_all

lemma nth_fold_add_cuts:
  assumes "i < length cs" "length cs = nat height"
  shows "set (fold (add_cuts (size_region (Size width height))) rcs cs ! i) =
     set (cs ! i) \<union> {c. \<exists>rc\<in>set rcs. cut_edge (size_region (Size width height)) i c rc}"
  using assms
proof (induction rcs arbitrary: cs)
  case Nil
  then show ?case by simp
next
  case (Cons rc rcs)
  have "set (fold (add_cuts (size_region (Size width height))) rcs
               (add_cuts (size_region (Size width height)) rc cs) ! i) =
        set (add_cuts (size_region (Size width height)) rc cs ! i) \<union>
        {c. \<exists>rc\<in>set rcs. cut_edge (size_region (Size width height)) i c rc}"
    using Cons.prems by (intro Cons.IH) simp_all
  then show ?case using nth_add_cuts[OF Cons.prems, of width rc] by auto
qed

lemma sorted_hd_least: "sorted l \<Longrightarrow> x \<in> set l \<Longrightarrow> hd l \<le> x"
  by (cases l) auto

lemma sorted_last_greatest: "sorted l \<Longrightarrow> x \<in> set l \<Longrightarrow> x \<le> last l"
  by (induction l) (auto split: if_splits)

lemma sort_remdups_strict: "sorted_wrt (<) (sort (remdups xs))"
  by (simp add: strict_sorted_iff)

lemma hd_sort_remdups:
  fixes xs :: "int list"
  assumes "a \<in> set xs" "\<forall>x\<in>set xs. a \<le> x"
  shows "hd (sort (remdups xs)) = a"
proof -
  let ?l = "sort (remdups xs)"
  have ne: "?l \<noteq> []" using assms(1) by (metis empty_iff list.set(1) set_remdups set_sort)
  have "hd ?l \<in> set ?l" using ne by (rule hd_in_set)
  then have "a \<le> hd ?l" using assms(2) by simp
  moreover have "hd ?l \<le> a" using assms(1) by (intro sorted_hd_least) simp_all
  ultimately show ?thesis by simp
qed

lemma last_sort_remdups:
  fixes xs :: "int list"
  assumes "a \<in> set xs" "\<forall>x\<in>set xs. x \<le> a"
  shows "last (sort (remdups xs)) = a"
proof -
  let ?l = "sort (remdups xs)"
  have ne: "?l \<noteq> []" using assms(1) by (metis empty_iff list.set(1) set_remdups set_sort)
  have "last ?l \<in> set ?l" using ne by (rule last_in_set)
  then have "last ?l \<le> a" using assms(2) by simp
  moreover have "a \<le> last ?l" using assms(1) by (intro sorted_last_greatest) simp_all
  ultimately show ?thesis by simp
qed

lemma cuts_uncached:
  assumes "c_cuts s = None"
  shows "fst (cuts s) =
     map (\<lambda>line_cuts. sort (remdups line_cuts))
       (fold (add_cuts (size_region (c_size s))) (map snd (fst (visible_widgets s)))
          (replicate (nat (size_height (c_size s))) [0, size_width (c_size s)]))"
  using assms by (simp add: cuts_def Let_def split: prod.splits)

lemma length_cuts:
  "c_cuts s = None \<Longrightarrow> length (fst (cuts s)) = nat (size_height (c_size s))"
  by (simp add: cuts_uncached)

lemma bex_map_snd:
  "(\<exists>rc\<in>set (map snd vw). P rc) = (\<exists>(widget, region, clip)\<in>set vw. P (region, clip))"
  by force

lemma cuts_row_set:
  assumes "c_cuts s = None" "y < nat (size_height (c_size s))"
  shows "set (fst (cuts s) ! y) =
     {0, size_width (c_size s)} \<union>
     {c. \<exists>(widget, region, clip)\<in>set (fst (visible_widgets s)).
           cut_edge (size_region (c_size s)) y c (region, clip)}"
proof -
  obtain width height where sz: "c_size s = Size width height" by (cases "c_size s")
  let ?cs0 = "replicate (nat height) [0, width]"
  have "set (fold (add_cuts (size_region (Size width height)))
               (map snd (fst (visible_widgets s))) ?cs0 ! y) =
        set (?cs0 ! y) \<union>
        {c. \<exists>rc\<in>set (map snd (fst (visible_widgets s))).
              cut_edge (size_region (Size width height)) y c rc}"
    using assms(2) by (intro nth_fold_add_cuts) (simp_all add: sz)
  then have "set (fold (add_cuts (size_region (Size width height)))
               (map snd (fst (visible_widgets s))) ?cs0 ! y) =
        {0, width} \<union>
        {c. \<exists>(widget, region, clip)\<in>set (fst (visible_widgets s)).
              cut_edge (size_region (Size width height)) y c (region, clip)}"
    using assms(2) unfolding bex_map_snd by (simp add: sz)
  then show ?thesis
    using assms by (simp add: cuts_uncached sz del: add_cuts.simps)
qed

lemma cut_edge_bounds:
  assumes "cut_edge (Region 0 0 width height) y c rc"
  shows "0 \<le> c \<and> c \<le> width"
  using assms by (auto simp: cut_edge_def Let_def contains_region_screen)

text \<open>
  Claim C9.  When the cuts are computed (the cache is empty, as after every reflow) for a
  screen of non-negative width, there is one list of cuts per row of the screen; each list is
  strictly increasing, starts with 0 and ends with the width, and every entry is 0, the width,
  or the left or right edge of the clipped region of a visible widget whose clipped region is
  non-empty, lies inside the screen and covers that row.
\<close>

theorem cuts_rows:
  assumes "c_cuts s = None" and "0 \<le> size_width (c_size s)"
  shows "length (fst (cuts s)) = nat (size_height (c_size s)) \<and>
    (\<forall>y < length (fst (cuts s)).
       sorted_wrt (<) (fst (cuts s) ! y) \<and>
       hd (fst (cuts s) ! y) = 0 \<and>
       last (fst (cuts s) ! y) = size_width (c_size s) \<and>
       (\<forall>c \<in> set (fst (cuts s) ! y).
           c = 0 \<or> c = size_width (c_size s) \<or>
           (\<exists>(widget, region, clip) \<in> set (fst (visible_widgets s)).
              cut_edge (size_region (c_size s)) y c (region, clip))))"
proof (intro conjI allI impI)
  show len: "length (fst (cuts s)) = nat (size_height (c_size s))"
    using assms(1) by (rule length_cuts)
  fix y assume "y < length (fst (cuts s))"
  then have y: "y < nat (size_height (c_size s))" using len by simp
  obtain width height where sz: "c_size s = Size width height" by (cases "c_size s")
  have w: "0 \<le> width" using assms(2) sz by simp
  define raw where "raw = fold (add_cuts (size_region (c_size s)))
      (map snd (fst (visible_widgets s)))
      (replicate (nat (size_height (c_size s))) [0, size_width (c_size s)]) ! y"
  have row: "fst (cuts s) ! y = sort (remdups raw)"
    using y by (simp add: cuts_uncached[OF assms(1)] raw_def)
  have rs: "set raw = {0, width} \<union>
     {c. \<exists>(widget, region, clip)\<in>set (fst (visible_widgets s)).
           cut_edge (Region 0 0 width height) y c (region, clip)}"
    using cuts_row_set[OF assms(1) y] by (simp add: row sz)
  have bounds: "\<forall>c\<in>set raw. 0 \<le> c \<and> c \<le> width"
    using w by (auto simp: rs dest: cut_edge_bounds)
  show "sorted_wrt (<) (fst (cuts s) ! y)" unfolding row by (rule sort_remdups_strict)
  show "hd (fst (cuts s) ! y) = 0"
    unfolding row using bounds by (intro hd_sort_remdups) (simp_all add: rs)
  show "last (fst (cuts s) ! y) = size_width (c_size s)"
    unfolding row using bounds by (intro last_sort_remdups) (simp_all add: rs sz)
  show "\<forall>c \<in> set (fst (cuts s) ! y).
           c = 0 \<or> c = size_width (c_size s) \<or>
           (\<exists>(widget, region, clip) \<in> set (fst (visible_widgets s)).
              cut_edge (size_region (c_size s)) y c (region, clip))"
    unfolding row using rs by (auto simp: sz)
qed

lemma example_cuts: "fst (cuts example_state) = [[0, 10], [0, 2, 7, 10], [0, 10]]"
  by code_simp

lemma example_visible:
  "fst (visible_widgets example_state) =
     [(2, Region 2 1 5 1, Region 0 0 10 3), (1, Region 0 0 10 3, Region 0 0 10 3)]"
  by code_simp

theorem cuts_rows_witness:
  "c_cuts example_state = None \<and> 0 \<le> size_width (c_size example_state) \<and>
   fst (cuts example_state) = [[0, 10], [0, 2, 7, 10], [0, 10]] \<and>
   length (fst (cuts example_state)) = nat (size_height (c_size example_state)) \<and>
   sorted_wrt (<) (fst (cuts example_state) ! 1) \<and>
   hd (fst (cuts example_state) ! 1) = 0 \<and>
   last (fst (cuts example_state) ! 1) = size_width (c_size example_state) \<and>
   (\<exists>(widget, region, clip) \<in> set (fst (visible_widgets example_state)).
      cut_edge (size_region (c_size example_state)) 1 2 (region, clip))"
proof -
  have h1: "c_cuts example_state = None" by (simp add: example_state_def init_def)
  have h2: "0 \<le> size_width (c_size example_state)" by (simp add: example_state_def init_def)
  have sz: "c_size example_state = Size 10 3" by (simp add: example_state_def init_def)
  have e: "cut_edge (size_region (c_size example_state)) 1 2 (Region 2 1 5 1, Region 0 0 10 3)"
    by (simp add: sz cut_edge_def Let_def)
  show ?thesis
    using cuts_rows[OF h1 h2] h1 h2 e by (simp add: example_cuts example_visible sz)
qed

section \<open>Widgets under a coordinate\<close>

lemma append_rows_length:
  "append_rows loc ys lv = Inr lv' \<Longrightarrow> length lv' = length lv"
  by (induction ys arbitrary: lv) (auto split: option.splits)

lemma add_layer_rows_length:
  "add_layer_rows vw lv = Inr lv' \<Longrightarrow> length lv' = length lv"
proof (induction vw lv rule: add_layer_rows.induct)
  case (1 lv)
  then show ?case by simp
next
  case (2 widget region clip rest lv)
  then show ?case
    by (auto simp: Let_def split: if_splits sum.splits dest: append_rows_length)
qed

lemma layers_visible_length:
  assumes "c_layers_visible s = None" "fst (layers_visible s) = Inr lv"
  shows "length lv = nat (size_height (c_size s))"
  using assms
  by (auto simp: layers_visible_def Let_def split: prod.splits sum.splits
           dest: add_layer_rows_length)

lemma get_widget_at_outside:
  assumes "fst (layers_visible s) = Inr lv" "y < 0 \<or> int (length lv) \<le> y"
  shows "get_widget_at widget_visible x y s = (Inl NoWidget, snd (layers_visible s))"
  using assms by (cases "layers_visible s") (auto simp: get_widget_at_def)

lemma get_widgets_at_index_error:
  assumes "fst (layers_visible s) = Inr lv" "int (length lv) \<le> y \<or> y < - int (length lv)"
  shows "get_widgets_at widget_visible x y s = (Inl IndexError, snd (layers_visible s))"
  using assms by (cases "layers_visible s") (auto simp: get_widgets_at_def py_index_def)

lemma get_widgets_at_negative:
  assumes "fst (layers_visible s) = Inr lv" "- int (length lv) \<le> y" "y < 0"
  shows "get_widgets_at widget_visible x y s =
     (Inr [(widget, region).
             (widget, cropped_region, region) \<leftarrow> lv ! nat (int (length lv) + y),
             contains cropped_region x y \<and> widget_visible widget],
      snd (layers_visible s))"
  using assms by (cases "layers_visible s") (auto simp: get_widgets_at_def py_index_def)

lemma contains_row_nonneg:
  "y < 0 \<Longrightarrow> 0 \<le> reg_y cropped_region \<Longrightarrow> \<not> contains cropped_region x y"
  by (cases cropped_region) simp

lemma negative_row_empty:
  assumes "y < 0"
    "\<forall>(widget, cropped_region, region) \<in> set row. 0 \<le> reg_y cropped_region"
  shows "[(widget, region).
             (widget, cropped_region, region) \<leftarrow> row,
             contains cropped_region x y \<and> widget_visible widget] = []"
  using assms by (induction row) (auto simp: contains_row_nonneg)

lemma get_widgets_at_negative_empty:
  assumes "fst (layers_visible s) = Inr lv" "- int (length lv) \<le> y" "y < 0"
    "\<forall>(widget, cropped_region, region) \<in> set (lv ! nat (int (length lv) + y)).
        0 \<le> reg_y cropped_region"
  shows "get_widgets_at widget_visible x y s = (Inr [], snd (layers_visible s))"
  using get_widgets_at_negative[OF assms(1,2,3)] negative_row_empty[OF assms(3,4)]
  by simp

text \<open>
  Claim C10, as stated, fails in its last part: on the screen of 10 by 3 with widget 2 at
  (2, 1, 5, 1) over the root 1, row 3 + (-2) = 1 holds widgets 2 and 1 under column 3, yet
  \<^verbatim>\<open>get_widgets_at(3, -2)\<close> yields nothing: the row is taken from the end of the list, but each
  entry is tested with \<^verbatim>\<open>contains(cropped_region, x, y)\<close> at the negative \<open>y\<close>.
\<close>

theorem get_widgets_at_negative_counterexample:
  "size_height (c_size example_state) + (- 2) = 1 \<and>
   fst (get_widgets_at (\<lambda>_. True) 3 1 example_state) =
     Inr [(2, Region 2 1 5 1), (1, Region 0 0 10 3)] \<and>
   fst (get_widgets_at (\<lambda>_. True) 3 (- 2) example_state) = Inr []"
  by code_simp

text \<open>
  Claim C10, amended.  Once the rows of \<^verbatim>\<open>layers_visible\<close> are there (one per screen row when
  they are computed afresh), \<^verbatim>\<open>get_widget_at\<close> raises NoWidget for every row outside the list,
  whereas \<^verbatim>\<open>get_widgets_at\<close> makes no such check: it raises IndexError for a row at or beyond
  the height, and for a negative row down to minus the height it raises nothing and goes
  through the row counted from the end, height + y, but tests every entry against the
  negative coordinate, so that it yields only the widgets of that row whose cropped region
  contains (x, y): none at all when no cropped region of the row starts at a negative row.
\<close>

theorem get_widget_at_bounds:
  assumes "fst (layers_visible s) = Inr lv"
  shows "(c_layers_visible s = None \<longrightarrow> length lv = nat (size_height (c_size s))) \<and>
    (\<forall>x y. y < 0 \<or> int (length lv) \<le> y \<longrightarrow>
       get_widget_at widget_visible x y s = (Inl NoWidget, snd (layers_visible s))) \<and>
    (\<forall>x y. int (length lv) \<le> y \<longrightarrow>
       get_widgets_at widget_visible x y s = (Inl IndexError, snd (layers_visible s))) \<and>
    (\<forall>x y. - int (length lv) \<le> y \<and> y < 0 \<longrightarrow>
       get_widgets_at widget_visible x y s =
         (Inr [(widget, region).
                 (widget, cropped_region, region) \<leftarrow> lv ! nat (int (length lv) + y),
                 contains cropped_region x y \<and> widget_visible widget],
          snd (layers_visible s))) \<and>
    (\<forall>x y. - int (length lv) \<le> y \<and> y < 0 \<and>
       (\<forall>(widget, cropped_region, region) \<in> set (lv ! nat (int (length lv) + y)).
          0 \<le> reg_y cropped_region) \<longrightarrow>
       get_widgets_at widget_visible x y s = (Inr [], snd (layers_visible s)))"
  using assms layers_visible_length get_widget_at_outside get_widgets_at_index_error
    get_widgets_at_negative get_widgets_at_negative_empty
  by (intro conjI allI impI) simp_all

lemma example_layers_visible:
  "fst (layers_visible example_state) =
     Inr [[(1, Region 0 0 10 3, Region 0 0 10 3)],
          [(2, Region 2 1 5 1, Region 2 1 5 1), (1, Region 0 0 10 3, Region 0 0 10 3)],
          [(1, Region 0 0 10 3, Region 0 0 10 3)]]"
  by code_simp

theorem get_widget_at_bounds_witness:
  "fst (layers_visible example_state) =
     Inr [[(1, Region 0 0 10 3, Region 0 0 10 3)],
          [(2, Region 2 1 5 1, Region 2 1 5 1), (1, Region 0 0 10 3, Region 0 0 10 3)],
          [(1, Region 0 0 10 3, Region 0 0 10 3)]] \<and>
   c_layers_visible example_state = None \<and>
   nat (size_height (c_size example_state)) = 3 \<and>
   fst (get_widget_at (\<lambda>_. True) 3 3 example_state) = Inl NoWidget \<and>
   fst (get_widget_at (\<lambda>_. True) 3 (- 1) example_state) = Inl NoWidget \<and>
   fst (get_widgets_at (\<lambda>_. True) 3 3 example_state) = Inl IndexError \<and>
   fst (get_widgets_at (\<lambda>_. True) 3 (- 2) example_state) = Inr []"
proof -
  have c: "c_layers_visible example_state = None" by (simp add: example_state_def init_def)
  note t = get_widget_at_bounds[OF example_layers_visible, of "\<lambda>_. True"]
  have 1: "fst (get_widget_at (\<lambda>_. True) 3 3 example_state) = Inl NoWidget"
    using t by simp
  have 2: "fst (get_widget_at (\<lambda>_. True) 3 (- 1) example_state) = Inl NoWidget"
    using t by simp
  have 3: "fst (get_widgets_at (\<lambda>_. True) 3 3 example_state) = Inl IndexError"
    using t by simp
  have 4: "fst (get_widgets_at (\<lambda>_. True) 3 (- 2) example_state) = Inr []"
    using t by simp
  have 5: "nat (size_height (c_size example_state)) = 3"
    using t c by simp
  show ?thesis using example_layers_visible c 1 2 3 4 5 by simp
qed

section \<open>The region requested from a widget\<close>










section \<open>Properties of the arrangement\<close>

lemma chrome_ids_unfold:
  "chrome_ids w =
     fst ` set (w_arrange_scrollbars w) \<union> placements_chrome_ids (a_placements (w_arrange w))"
  by (cases w; cases "w_arrange w") simp

lemma placements_chrome_ids_Cons:
  "placements_chrome_ids (p # rest) = chrome_ids (p_widget p) \<union> placements_chrome_ids rest"
  by (cases p) simp

lemma placements_chrome_ids_set:
  "placements_chrome_ids ps = (\<Union>p\<in>set ps. chrome_ids (p_widget p))"
  by (induction ps) (simp_all add: placements_chrome_ids_Cons)

lemma keys_update: "fst ` set (AList.update k v al) = insert k (fst ` set al)"
  by (induction al) auto

lemma add_scrollbars_Nil [simp]: "add_scrollbars [] ord clip cs m = m"
  by (simp add: add_scrollbars_def)

lemma add_scrollbars_Cons:
  "add_scrollbars ((cw, cr) # chrome) ord clip cs m =
     add_scrollbars chrome ord clip cs (AList.update cw (MapGeometry cr ord clip cs cs cr) m)"
  by (simp add: add_scrollbars_def)

lemma keys_add_scrollbars:
  "fst ` set (add_scrollbars chrome ord clip cs m) = fst ` set chrome \<union> fst ` set m"
proof (induction chrome arbitrary: m)
  case Nil
  show ?case by simp
next
  case (Cons c chrome)
  obtain cw cr where c: "c = (cw, cr)" by (cases c)
  show ?case unfolding c add_scrollbars_Cons Cons.IH by (simp add: keys_update)
qed

lemma shown_placements_subset:
  "set (rev (if visible_only then get_visible_placements (w_arrange w) viewport
             else a_placements (w_arrange w))) \<subseteq> set (a_placements (w_arrange w))"
  by (auto simp: get_visible_placements_def)

text \<open>
  What \<^verbatim>\<open>add_widget\<close> does to the map and the set of widgets, with the geometry left out: the
  widget's own entry has the order and the clip it was called with, its scrollbars are
  inserted before it, and a scrollable container first runs the loop over some of its
  placements.
\<close>

lemma add_widget_shape:
  "\<exists>visible g cs chrome.
     geo_order g = ord \<and> geo_clip g = clip \<and> set chrome \<subseteq> set (w_arrange_scrollbars w) \<and>
     (if w_is_scrollable w \<and> w_is_container w then
        (\<exists>ps ly ss po pso sc tr0 tr m1 ws1.
           set ps \<subseteq> set (a_placements (w_arrange w)) \<and>
           add_placements vo ps ly ss po pso ord lo sc visible
             (tr0, m, (if visible then insert (w_id w) ws else ws) \<union> a_widgets (w_arrange w))
             = (tr, m1, ws1) \<and>
           add_widget vo w vr region ord lo clip vis0 (m, ws) =
             (if visible
              then (AList.update (w_id w) g (add_scrollbars chrome ord clip cs m1), ws1)
              else (m1, ws1)))
      else
        add_widget vo w vr region ord lo clip vis0 (m, ws) =
          (if visible
           then (AList.update (w_id w) g (add_scrollbars chrome ord clip cs m), insert (w_id w) ws)
           else (m, ws)))"
proof -
  let ?visible = "case w_visibility w of None \<Rightarrow> vis0 | Some visibility \<Rightarrow> visibility = ''visible''"
  let ?wsV = "if ?visible then insert (w_id w) ws else ws"
  let ?lo = "case w_offset w of Some resolve \<Rightarrow> resolve (region_size region) (region_size clip)
             | None \<Rightarrow> Offset 0 0"
  let ?cr = "translate (shrink region (w_gutter w)) ?lo"
  let ?cs = "region_size ?cr"
  let ?child = "w_get_scrollable_region w ?cr"
  let ?sb = "fst (w_scrollbars_enabled w) \<or> snd (w_scrollbars_enabled w)"
  let ?chrome = "if ?sb then w_arrange_scrollbars w else []"
  have chrome: "set ?chrome \<subseteq> set (w_arrange_scrollbars w)" by auto
  show ?thesis
  proof (cases "w_is_scrollable w")
    case False
    let ?g = "MapGeometry (translate region ?lo) ord clip (region_size region) ?cs vr"
    have "add_widget vo w vr region ord lo clip vis0 (m, ws) =
        (if ?visible then (AList.update (w_id w) ?g (add_scrollbars [] ord clip ?cs m),
                           insert (w_id w) ws)
         else (m, ws))"
      using False by (simp add: add_widget.simps Let_def)
    then show ?thesis using False
      by (intro exI[of _ ?visible] exI[of _ ?g] exI[of _ ?cs] exI[of _ "[]"]) simp
  next
    case scr: True
    show ?thesis
    proof (cases "w_is_container w")
      case False
      let ?g = "MapGeometry (translate region ?lo) ord clip (region_size (reset_offset ?child)) ?cs vr"
      have "add_widget vo w vr region ord lo clip vis0 (m, ws) =
          (if ?visible then (AList.update (w_id w) ?g (add_scrollbars ?chrome ord clip ?cs m),
                             insert (w_id w) ws)
           else (m, ws))"
        using scr False by (simp add: add_widget.simps Let_def)
      then show ?thesis using scr False chrome
        by (intro exI[of _ ?visible] exI[of _ ?g] exI[of _ ?cs] exI[of _ ?chrome])
           (simp del: set_simps)
    next
      case con: True
      let ?ps = "rev (if vo then get_visible_placements (w_arrange w)
                         (translate (size_region ?cs) (w_scroll_offset w))
                      else a_placements (w_arrange w))"
      let ?ly = "w_layers w" let ?ss = "a_scroll_spacing (w_arrange w)"
      let ?po = "region_offset ?cr" let ?pso = "offset_sub ?po (w_scroll_offset w)"
      let ?sc = "intersection clip ?child"
      let ?tr0 = "region_union (reset_offset ?child) (a_total_region (w_arrange w))"
      let ?call = "add_placements vo ?ps ?ly ?ss ?po ?pso ord lo ?sc ?visible
                     (?tr0, m, ?wsV \<union> a_widgets (w_arrange w))"
      obtain tr m1 ws1 where ap: "?call = (tr, m1, ws1)" by (cases ?call)
      let ?g = "MapGeometry (translate region ?lo) ord clip (region_size tr) ?cs vr"
      have eq: "add_widget vo w vr region ord lo clip vis0 (m, ws) =
          (if ?visible then (AList.update (w_id w) ?g (add_scrollbars ?chrome ord clip ?cs m1), ws1)
           else (m1, ws1))"
        using scr con ap by (simp add: add_widget.simps Let_def)
      have sub: "set ?ps \<subseteq> set (a_placements (w_arrange w))"
        by (rule shown_placements_subset)
      have "\<exists>ps ly ss po pso sc tr0 tr m1 ws1.
           set ps \<subseteq> set (a_placements (w_arrange w)) \<and>
           add_placements vo ps ly ss po pso ord lo sc ?visible
             (tr0, m, ?wsV \<union> a_widgets (w_arrange w)) = (tr, m1, ws1) \<and>
           add_widget vo w vr region ord lo clip vis0 (m, ws) =
             (if ?visible
              then (AList.update (w_id w) ?g (add_scrollbars ?chrome ord clip ?cs m1), ws1)
              else (m1, ws1))"
        using sub ap eq by blast
      then show ?thesis using scr con chrome
        by (intro exI[of _ ?visible] exI[of _ ?g] exI[of _ ?cs] exI[of _ ?chrome])
           (simp del: set_simps)
    qed
  qed
qed

lemma add_placements_Cons_shape:
  "\<exists>li z vr region tr'.
     add_placements vo (p # rest) ly ss po pso ord lo sc vis (tr, m, ws) =
       add_placements vo rest ly ss po pso ord (lo - 1) sc vis
         (tr', fst (add_widget vo (p_widget p) vr region (ord @ [(li, z, lo)]) lo sc vis (m, ws)),
               snd (add_widget vo (p_widget p) vr region (ord @ [(li, z, lo)]) lo sc vis (m, ws)))"
  by (simp add: Let_def split: prod.splits) blast


lemma size_placed_widget:
  assumes "p \<in> set (a_placements (w_arrange w))"
  shows "size (p_widget p) < size w"
proof -
  have "size p \<le> size_list size (a_placements (w_arrange w))"
    using assms by (simp add: size_list_estimation')
  moreover have "size (p_widget p) < size p" by (simp add: size_placement)
  ultimately show ?thesis using size_placements[of w] by simp
qed

text \<open>
  Induction over the arrangement: a property of \<^verbatim>\<open>add_widget\<close> may assume the property of
  the loop for any placements of the widget, and a property of the loop may assume the
  property of \<^verbatim>\<open>add_widget\<close> for the placed widget and of the loop for the remaining placements.
\<close>

lemma arrange_induct:
  assumes W: "\<And>vo w vr region ord lo clip vis0 st.
      (\<And>ps ly ss po pso ord' lo' sc vis st'.
          set ps \<subseteq> set (a_placements (w_arrange w)) \<Longrightarrow>
          Q vo ps ly ss po pso ord' lo' sc vis st') \<Longrightarrow>
      P vo w vr region ord lo clip vis0 st"
    and N: "\<And>vo ly ss po pso ord lo sc vis st. Q vo [] ly ss po pso ord lo sc vis st"
    and C: "\<And>vo p rest ly ss po pso ord lo sc vis st.
      (\<And>vr region ord' lo' clip vis0 st'. P vo (p_widget p) vr region ord' lo' clip vis0 st') \<Longrightarrow>
      (\<And>ord' lo' st'. Q vo rest ly ss po pso ord' lo' sc vis st') \<Longrightarrow>
      Q vo (p # rest) ly ss po pso ord lo sc vis st"
  shows "P vo w vr region ord lo clip vis0 st"
proof -
  have "\<forall>vo vr region ord lo clip vis0 st. P vo w vr region ord lo clip vis0 st"
  proof (induction w rule: measure_induct_rule[of size])
    case (less w)
    have q: "Q vo ps ly ss po pso ord lo sc vis st"
      if "set ps \<subseteq> set (a_placements (w_arrange w))"
      for vo ps ly ss po pso ord lo sc vis st
      using that
    proof (induction ps arbitrary: ord lo st)
      case Nil
      show ?case by (rule N)
    next
      case (Cons p rest)
      have "size (p_widget p) < size w" using Cons.prems by (intro size_placed_widget) simp
      then have 1: "\<And>vr region ord' lo' clip vis0 st'.
          P vo (p_widget p) vr region ord' lo' clip vis0 st'"
        using less.IH by blast
      have 2: "\<And>ord' lo' st'. Q vo rest ly ss po pso ord' lo' sc vis st'"
        using Cons.IH Cons.prems by simp
      show ?case using 1 2 by (rule C)
    qed
    show ?case by (intro allI W q)
  qed
  then show ?thesis by blast
qed

lemma arrange_placements_induct:
  assumes W: "\<And>vo w vr region ord lo clip vis0 st.
      (\<And>ps ly ss po pso ord' lo' sc vis st'.
          set ps \<subseteq> set (a_placements (w_arrange w)) \<Longrightarrow>
          Q vo ps ly ss po pso ord' lo' sc vis st') \<Longrightarrow>
      P vo w vr region ord lo clip vis0 st"
    and N: "\<And>vo ly ss po pso ord lo sc vis st. Q vo [] ly ss po pso ord lo sc vis st"
    and C: "\<And>vo p rest ly ss po pso ord lo sc vis st.
      (\<And>vr region ord' lo' clip vis0 st'. P vo (p_widget p) vr region ord' lo' clip vis0 st') \<Longrightarrow>
      (\<And>ord' lo' st'. Q vo rest ly ss po pso ord' lo' sc vis st') \<Longrightarrow>
      Q vo (p # rest) ly ss po pso ord lo sc vis st"
  shows "Q vo ps ly ss po pso ord lo sc vis st"
proof (induction ps arbitrary: ord lo st)
  case Nil
  show ?case by (rule N)
next
  case (Cons p rest)
  have 1: "\<And>vr region ord' lo' clip vis0 st'.
      P vo (p_widget p) vr region ord' lo' clip vis0 st'"
    by (rule arrange_induct[of Q P, OF W N C])
  show ?case using 1 Cons.IH by (rule C)
qed

lemma subset_chain:
  "A \<subseteq> B \<Longrightarrow> K' \<subseteq> K \<union> B \<union> c1 \<Longrightarrow> B \<subseteq> C \<Longrightarrow> K'' \<subseteq> K' \<union> C \<union> c2 \<Longrightarrow>
   A \<subseteq> C \<and> K'' \<subseteq> K \<union> C \<union> (c1 \<union> c2)"
  by blast

lemma keys_inv_trans:
  "keys_inv c1 st st' \<Longrightarrow> keys_inv c2 st' st'' \<Longrightarrow> keys_inv (c1 \<union> c2) st st''"
  unfolding keys_inv_def by (elim conjE) (rule subset_chain)

lemma add_widget_keys:
  "keys_inv (chrome_ids w) st (add_widget vo w vr region ord lo clip vis0 st)"
proof (rule arrange_induct[where
      P = "\<lambda>vo w vr region ord lo clip vis0 st.
             keys_inv (chrome_ids w) st (add_widget vo w vr region ord lo clip vis0 st)"
      and Q = "\<lambda>vo ps ly ss po pso ord lo sc vis st.
             keys_inv (placements_chrome_ids ps) (snd st)
               (snd (add_placements vo ps ly ss po pso ord lo sc vis st))"],
    goal_cases)
  case (1 vo w vr region ord lo clip vis0 st)
  obtain m ws where st: "st = (m, ws)" by (cases st)
  obtain visible g cs chrome where
    chrome: "set chrome \<subseteq> set (w_arrange_scrollbars w)" and
    shape: "if w_is_scrollable w \<and> w_is_container w then
        (\<exists>ps ly ss po pso sc tr0 tr m1 ws1.
           set ps \<subseteq> set (a_placements (w_arrange w)) \<and>
           add_placements vo ps ly ss po pso ord lo sc visible
             (tr0, m, (if visible then insert (w_id w) ws else ws) \<union> a_widgets (w_arrange w))
             = (tr, m1, ws1) \<and>
           add_widget vo w vr region ord lo clip vis0 (m, ws) =
             (if visible
              then (AList.update (w_id w) g (add_scrollbars chrome ord clip cs m1), ws1)
              else (m1, ws1)))
      else
        add_widget vo w vr region ord lo clip vis0 (m, ws) =
          (if visible
           then (AList.update (w_id w) g (add_scrollbars chrome ord clip cs m), insert (w_id w) ws)
           else (m, ws))"
    using add_widget_shape[of ord clip w vo lo m ws vr region vis0] by blast
  have c: "fst ` set chrome \<subseteq> chrome_ids w"
    using chrome by (auto simp: chrome_ids_unfold[of w])
  show ?case
  proof (cases "w_is_scrollable w \<and> w_is_container w")
    case False
    then show ?thesis using shape c
      by (auto simp: st keys_inv_def keys_update keys_add_scrollbars)
  next
    case True
    then obtain ps ly ss po pso sc tr0 tr m1 ws1 where
      sub: "set ps \<subseteq> set (a_placements (w_arrange w))" and
      ap: "add_placements vo ps ly ss po pso ord lo sc visible
             (tr0, m, (if visible then insert (w_id w) ws else ws) \<union> a_widgets (w_arrange w))
             = (tr, m1, ws1)" and
      eq: "add_widget vo w vr region ord lo clip vis0 (m, ws) =
             (if visible
              then (AList.update (w_id w) g (add_scrollbars chrome ord clip cs m1), ws1)
              else (m1, ws1))"
      using shape by auto
    have "keys_inv (placements_chrome_ids ps)
            (snd (tr0, m, (if visible then insert (w_id w) ws else ws) \<union> a_widgets (w_arrange w)))
            (snd (add_placements vo ps ly ss po pso ord lo sc visible
               (tr0, m, (if visible then insert (w_id w) ws else ws) \<union> a_widgets (w_arrange w))))"
      by (rule "1"[OF sub])
    then have "keys_inv (placements_chrome_ids ps)
            (m, (if visible then insert (w_id w) ws else ws) \<union> a_widgets (w_arrange w))
            (m1, ws1)"
      by (simp add: ap)
    moreover have "placements_chrome_ids ps \<subseteq> chrome_ids w"
      using sub by (auto simp: chrome_ids_unfold[of w] placements_chrome_ids_set)
    ultimately show ?thesis using c
      by (auto simp: st eq keys_inv_def keys_update keys_add_scrollbars)
  qed
next
  case 2
  show ?case by (simp add: keys_inv_def)
next
  case (3 vo p rest ly ss po pso ord lo sc vis st)
  obtain tr m ws where st: "st = (tr, m, ws)" by (cases st)
  obtain li z vr region tr' where
    eq: "add_placements vo (p # rest) ly ss po pso ord lo sc vis (tr, m, ws) =
       add_placements vo rest ly ss po pso ord (lo - 1) sc vis
         (tr', fst (add_widget vo (p_widget p) vr region (ord @ [(li, z, lo)]) lo sc vis (m, ws)),
               snd (add_widget vo (p_widget p) vr region (ord @ [(li, z, lo)]) lo sc vis (m, ws)))"
    using add_placements_Cons_shape[of vo p rest ly ss po pso ord lo sc vis tr m ws] by blast
  let ?mid = "add_widget vo (p_widget p) vr region (ord @ [(li, z, lo)]) lo sc vis (m, ws)"
  have a: "keys_inv (chrome_ids (p_widget p)) (m, ws) ?mid" by (rule "3"(1))
  have "keys_inv (placements_chrome_ids rest) (snd (tr', fst ?mid, snd ?mid))
             (snd (add_placements vo rest ly ss po pso ord (lo - 1) sc vis
                     (tr', fst ?mid, snd ?mid)))"
    by (rule "3"(2))
  then have b: "keys_inv (placements_chrome_ids rest) ?mid
             (snd (add_placements vo rest ly ss po pso ord (lo - 1) sc vis
                     (tr', fst ?mid, snd ?mid)))"
    by simp
  show ?case
    using keys_inv_trans[OF a b]
    by (simp add: st eq placements_chrome_ids_Cons del: add_placements.simps)
qed

section \<open>Reflow\<close>

lemma mark_dirty_fields [simp]:
  "c_full_map (mark_dirty screen changes s) = c_full_map s"
  "c_widgets (mark_dirty screen changes s) = c_widgets s"
  "c_full_map_invalidated (mark_dirty screen changes s) = c_full_map_invalidated s"
  "c_root (mark_dirty screen changes s) = c_root s"
  "c_size (mark_dirty screen changes s) = c_size s"
  "c_visible_map (mark_dirty screen changes s) = c_visible_map s"
  by (simp_all add: mark_dirty_def Let_def)

lemma reflow_fields:
  "c_full_map (snd (reflow parent size' s)) = fst (arrange_root parent size' True)"
  "c_widgets (snd (reflow parent size' s)) = snd (arrange_root parent size' True)"
  "c_full_map_invalidated (snd (reflow parent size' s)) = c_full_map_invalidated s"
  "c_root (snd (reflow parent size' s)) = Some parent"
  "c_size (snd (reflow parent size' s)) = size'"
  "c_visible_map (snd (reflow parent size' s)) = None"
  by (simp_all add: reflow_def Let_def split: prod.splits)

lemma reflow_results:
  "hidden (fst (reflow parent size' s)) = {}"
  "shown (fst (reflow parent size' s)) =
     fst ` set (fst (arrange_root parent size' True)) - fst ` set (c_full_map s)"
  by (simp_all add: reflow_def Let_def split: prod.splits)

lemma one_child_map:
  "map fst (fst (arrange_root one_child (Size 10 3) True)) = [2, 1]"
  by code_simp

lemma no_child_map:
  "map fst (fst (arrange_root no_child (Size 10 3) True)) = [1]"
  by code_simp

text \<open>
  Claim C1.  \<^verbatim>\<open>reflow\<close> computes \<^verbatim>\<open>hidden\<close> as \<^verbatim>\<open>self.widgets - widgets\<close> after it has assigned
  \<^verbatim>\<open>self.widgets = widgets\<close>, so the set is empty whatever the maps are (\<open>reflow_results\<close>).
  After a reflow of a root with child 2, a reflow of the root alone removes key 2 from the
  map, and reports no hidden widget.
\<close>

theorem reflow_hidden_failing_input:
  "set (map fst (c_full_map (snd (reflow one_child (Size 10 3) init)))) -
     set (map fst (c_full_map (snd (reflow no_child (Size 10 3)
                                      (snd (reflow one_child (Size 10 3) init)))))) = {2} \<and>
   hidden (fst (reflow no_child (Size 10 3) (snd (reflow one_child (Size 10 3) init)))) = {}"
  by (auto simp: reflow_fields reflow_results one_child_map no_child_map)

text \<open>
  Every key of the map that \<^verbatim>\<open>reflow\<close> stores is in the set of widgets it stores or is a
  scrollbar chrome widget of the tree: the chrome widgets are the only keys that can be
  missing from the set.
\<close>

lemma reflow_keys_widgets_or_chrome:
  "set (map fst (c_full_map (snd (reflow parent size' s))))
     \<subseteq> c_widgets (snd (reflow parent size' s)) \<union> chrome_ids parent"
  using add_widget_keys[of parent "([], {})" True "size_region size'" "size_region size'"
          "[(0, 0, 0)]" 0 "size_region size'" True]
  by (simp add: reflow_fields arrange_root_def keys_inv_def)

lemma scroll_root_arranged:
  "map fst (fst (arrange_root scroll_root (Size 10 3) True)) = [9, 1]"
  "snd (arrange_root scroll_root (Size 10 3) True) = {1}"
  by code_simp+

text \<open>
  Claim C5.  \<^verbatim>\<open>_arrange_root\<close> writes the scrollbar chrome of a widget into the map and never
  adds it to \<^verbatim>\<open>widgets\<close>, whereas every other key of the map is added.  For a scrollable root 1
  with a scrollbar 9, on a new compositor, \<^verbatim>\<open>reflow\<close> leaves a map with the keys 9 and 1 and
  the set of widgets {1}, which is not a superset of the keys.
\<close>

theorem reflow_widgets_failing_input:
  "map fst (c_full_map (snd (reflow scroll_root (Size 10 3) init))) = [9, 1] \<and>
   c_widgets (snd (reflow scroll_root (Size 10 3) init)) = {1} \<and>
   \<not> set (map fst (c_full_map (snd (reflow scroll_root (Size 10 3) init))))
       \<subseteq> c_widgets (snd (reflow scroll_root (Size 10 3) init))"
  by (simp add: reflow_fields scroll_root_arranged)

lemma full_map_valid:
  "\<not> c_full_map_invalidated t \<Longrightarrow> full_map t = (if c_root t = None then [] else c_full_map t, t)"
  by (simp add: full_map_def split: option.splits)

lemma full_map_stale:
  assumes "c_full_map_invalidated t" "c_root t = Some r"
  shows "fst (full_map t) = fst (arrange_root r (c_size t) False)"
    and "\<not> c_full_map_invalidated (snd (full_map t))"
    and "c_full_map (snd (full_map t)) = fst (arrange_root r (c_size t) False)"
  using assms by (simp_all add: full_map_def Let_def split: prod.splits)

text \<open>
  \<^verbatim>\<open>reflow\<close> stores the map it computes, which arranges the visible placements only, and leaves
  the stale flag as it finds it.  A following access to \<^verbatim>\<open>full_map\<close> returns that map and
  changes nothing when the flag was clear before the reflow; when the flag was set (as on a
  new compositor, or after \<^verbatim>\<open>reflow_visible\<close>, which sets it) the access arranges the root again
  with all placements, returns the map so built and clears the flag.
\<close>

lemma reflow_full_map_flag:
  "c_full_map (snd (reflow parent size' s)) = fst (arrange_root parent size' True) \<and>
   c_full_map_invalidated (snd (reflow parent size' s)) = c_full_map_invalidated s \<and>
   fst (full_map (snd (reflow parent size' s))) =
     (if c_full_map_invalidated s then fst (arrange_root parent size' False)
      else fst (arrange_root parent size' True)) \<and>
   (\<not> c_full_map_invalidated s \<longrightarrow>
      snd (full_map (snd (reflow parent size' s))) = snd (reflow parent size' s)) \<and>
   \<not> c_full_map_invalidated (snd (full_map (snd (reflow parent size' s)))) \<and>
   c_full_map_invalidated (snd (reflow_visible parent size' s)) \<and>
   (\<forall>t. \<not> c_full_map_invalidated t \<longrightarrow> snd (full_map t) = t)"
proof -
  let ?s' = "snd (reflow parent size' s)"
  have r: "c_root ?s' = Some parent" "c_size ?s' = size'"
    "c_full_map_invalidated ?s' = c_full_map_invalidated s"
    "c_full_map ?s' = fst (arrange_root parent size' True)"
    by (simp_all add: reflow_fields)
  have v: "c_full_map_invalidated (snd (reflow_visible parent size' s))"
    by (simp add: reflow_visible_def Let_def mark_dirty_def split: prod.splits)
  show ?thesis
  proof (cases "c_full_map_invalidated s")
    case True
    then have st: "c_full_map_invalidated ?s'" using r by simp
    show ?thesis
      using True full_map_stale[OF st r(1)] r v by (simp add: full_map_valid)
  next
    case False
    then have "\<not> c_full_map_invalidated ?s'" using r by simp
    from full_map_valid[OF this] show ?thesis
      using False r v by (simp add: full_map_valid)
  qed
qed

lemma two_rows_maps:
  "map fst (fst (arrange_root two_rows (Size 10 3) True)) = [2, 1]"
  "map fst (fst (arrange_root two_rows (Size 10 3) False)) = [3, 2, 1]"
  by code_simp+

text \<open>
  Claim C6.  \<^verbatim>\<open>reflow\<close> never assigns \<^verbatim>\<open>_full_map_invalidated\<close>, which \<^verbatim>\<open>__init__\<close> sets, and it
  arranges with \<^verbatim>\<open>visible_only\<close> at its default.  On a new compositor, after
  \<^verbatim>\<open>reflow\<close> of a root 1 with child 2 on the screen and child 3 below it, the flag is still
  set: the access to \<^verbatim>\<open>full_map\<close> arranges the root again, changes the state, and returns a map
  with the keys 3, 2, 1, where the map that the reflow computed has the keys 2, 1.  A second
  reflow, now with the flag clear, is followed by an access that returns the map of the
  visible placements, with the keys 2, 1, as the full map.
\<close>

theorem reflow_full_map_failing_input:
  "c_full_map_invalidated init \<and>
   c_full_map_invalidated (snd (reflow two_rows (Size 10 3) init)) \<and>
   snd (full_map (snd (reflow two_rows (Size 10 3) init))) \<noteq>
     snd (reflow two_rows (Size 10 3) init) \<and>
   \<not> c_full_map_invalidated (snd (full_map (snd (reflow two_rows (Size 10 3) init)))) \<and>
   map fst (fst (full_map (snd (reflow two_rows (Size 10 3) init)))) = [3, 2, 1] \<and>
   map fst (c_full_map (snd (reflow two_rows (Size 10 3) init))) = [2, 1] \<and>
   map fst (fst (full_map (snd (reflow two_rows (Size 10 3)
                    (snd (full_map (snd (reflow two_rows (Size 10 3) init)))))))) = [2, 1]"
proof -
  have i: "c_full_map_invalidated init" by (simp add: init_def)
  let ?s' = "snd (reflow two_rows (Size 10 3) init)"
  let ?s1 = "snd (full_map ?s')"
  have st: "c_full_map_invalidated ?s'" using i by (simp add: reflow_fields)
  have r: "c_root ?s' = Some two_rows" "c_size ?s' = Size 10 3" by (simp_all add: reflow_fields)
  have a: "fst (full_map ?s') = fst (arrange_root two_rows (Size 10 3) False)"
    using full_map_stale(1)[OF st r(1)] r(2) by simp
  have n: "\<not> c_full_map_invalidated ?s1" using full_map_stale(2)[OF st r(1)] .
  have d: "?s1 \<noteq> ?s'" using st n by auto
  have b: "c_full_map ?s' = fst (arrange_root two_rows (Size 10 3) True)"
    by (simp add: reflow_fields)
  let ?s2 = "snd (reflow two_rows (Size 10 3) ?s1)"
  have n2: "\<not> c_full_map_invalidated ?s2" using n by (simp add: reflow_fields)
  have c: "fst (full_map ?s2) = fst (arrange_root two_rows (Size 10 3) True)"
    using full_map_valid[OF n2] by (simp add: reflow_fields)
  show ?thesis using i st d n a b c by (simp add: two_rows_maps)
qed

section \<open>Painting orders\<close>

lemma below_prefix: "below ord lo ord' \<Longrightarrow> prefix ord ord'"
  by (auto simp: below_def prefix_def)

lemma below_neq: "below ord lo ord' \<Longrightarrow> ord' \<noteq> ord"
  by (auto simp: below_def prefix_def)

lemma below_mono: "below ord lo ord' \<Longrightarrow> lo \<le> lo' \<Longrightarrow> below ord lo' ord'"
  unfolding below_def by (meson order_trans)

lemma below_last: "prefix (ord @ [(li, z, lo)]) ord' \<Longrightarrow> below ord lo ord'"
  by (auto simp: below_def)

lemma below_disjoint:
  assumes "prefix (ord @ [(li, z, lo)]) ord'" "below ord (lo - 1) ord'"
  shows False
proof -
  obtain li' z' l where l: "l \<le> lo - 1" and p: "prefix (ord @ [(li', z', l)]) ord'"
    using assms(2) by (auto simp: below_def)
  obtain r1 where 1: "ord' = ord @ [(li, z, lo)] @ r1" using assms(1) by (auto simp: prefix_def)
  obtain r2 where 2: "ord' = ord @ [(li', z', l)] @ r2" using p by (auto simp: prefix_def)
  from 1 2 have "lo = l" by simp
  then show False using l by simp
qed

lemma map_of_add_scrollbars:
  "k \<notin> fst ` set chrome \<Longrightarrow> map_of (add_scrollbars chrome ord clip cs m) k = map_of m k"
proof (induction chrome arbitrary: m)
  case Nil
  show ?case by simp
next
  case (Cons c chrome)
  obtain cw cr where c: "c = (cw, cr)" by (cases c)
  have "k \<noteq> cw" "k \<notin> fst ` set chrome" using Cons.prems c by auto
  then show ?case unfolding c add_scrollbars_Cons by (simp add: Cons.IH update_conv')
qed

lemma distinct_add_scrollbars:
  "distinct (map fst m) \<Longrightarrow> distinct (map fst (add_scrollbars chrome ord clip cs m))"
proof (induction chrome arbitrary: m)
  case Nil
  then show ?case by simp
next
  case (Cons c chrome)
  obtain cw cr where c: "c = (cw, cr)" by (cases c)
  show ?case unfolding c add_scrollbars_Cons using Cons.prems
    by (intro Cons.IH) (simp add: distinct_update)
qed

text \<open>Inserting the widget's own entry, with order \<open>ord\<close>, after its chrome.\<close>

lemma own_entry:
  assumes inv: "orders_inv C m1"
    and chrome: "fst ` set chrome \<subseteq> C"
    and others: "\<forall>k g'. map_of m1 k = Some g' \<longrightarrow> k \<notin> C \<longrightarrow> geo_order g' \<noteq> ord"
    and g: "geo_order g = ord"
  shows "orders_inv C (AList.update wid g (add_scrollbars chrome ord clip cs m1))"
    and "written C (\<lambda>ord'. ord' = ord) m1 (AList.update wid g (add_scrollbars chrome ord clip cs m1))"
proof -
  let ?m2 = "add_scrollbars chrome ord clip cs m1"
  have lk: "map_of ?m2 k = map_of m1 k" if "k \<notin> C" for k
    using that chrome by (intro map_of_add_scrollbars) auto
  have d: "distinct (map fst (AList.update wid g ?m2))"
    using inv by (simp add: orders_inv_def distinct_update distinct_add_scrollbars)
  have lk2: "map_of (AList.update wid g ?m2) k = (if k = wid then Some g else map_of m1 k)"
    if "k \<notin> C" for k
    using lk[OF that] by (simp add: update_conv')
  show "orders_inv C (AList.update wid g ?m2)"
    unfolding orders_inv_def
  proof (intro conjI allI impI)
    show "distinct (map fst (AList.update wid g ?m2))" by (rule d)
  next
    fix k1 k2 g1 g2
    assume a: "map_of (AList.update wid g ?m2) k1 = Some g1"
      "map_of (AList.update wid g ?m2) k2 = Some g2" "k1 \<noteq> k2" "k1 \<notin> C" "k2 \<notin> C"
    have 1: "(if k1 = wid then Some g else map_of m1 k1) = Some g1" using a lk2 by metis
    have 2: "(if k2 = wid then Some g else map_of m1 k2) = Some g2" using a lk2 by metis
    show "geo_order g1 \<noteq> geo_order g2"
    proof (cases "k1 = wid")
      case True
      then have e: "g1 = g" "map_of m1 k2 = Some g2" using 1 2 a(3) by auto
      have "geo_order g2 \<noteq> ord" using others e(2) a(5) by blast
      then show ?thesis using g e(1) by simp
    next
      case False
      show ?thesis
      proof (cases "k2 = wid")
        case True
        then have e: "g2 = g" "map_of m1 k1 = Some g1" using 1 2 a(3) by auto
        have "geo_order g1 \<noteq> ord" using others e(2) a(4) by blast
        then show ?thesis using g e(1) by simp
      next
        case k2: False
        then have "map_of m1 k1 = Some g1" "map_of m1 k2 = Some g2" using False 1 2 by auto
        then show ?thesis using inv a(3,4,5) unfolding orders_inv_def by blast
      qed
    qed
  qed
  show "written C (\<lambda>ord'. ord' = ord) m1 (AList.update wid g ?m2)"
    unfolding written_def
  proof (intro allI impI)
    fix k g' assume a: "map_of (AList.update wid g ?m2) k = Some g'" "k \<notin> C"
    then have "(if k = wid then Some g else map_of m1 k) = Some g'" using lk2 by metis
    then show "map_of m1 k = Some g' \<or> geo_order g' = ord" using g by (auto split: if_splits)
  qed
qed


lemma placements_chrome_ids_mono:
  "set ps \<subseteq> set ps' \<Longrightarrow> placements_chrome_ids ps \<subseteq> placements_chrome_ids ps'"
  unfolding placements_chrome_ids_set by blast

lemma placed_chrome_ids:
  assumes "set ps \<subseteq> set (a_placements (w_arrange w))" "chrome_ids w \<subseteq> C"
  shows "placements_chrome_ids ps \<subseteq> C"
proof -
  have "placements_chrome_ids ps \<subseteq> placements_chrome_ids (a_placements (w_arrange w))"
    using assms(1) by (rule placements_chrome_ids_mono)
  also have "\<dots> \<subseteq> chrome_ids w" unfolding chrome_ids_unfold[of w] by blast
  finally show ?thesis using assms(2) by blast
qed

lemma written_refl: "written C R m m"
  by (simp add: written_def)

lemma written_trans:
  assumes "written C R1 m m1" "written C R2 m1 m2"
    and "\<And>x. R1 x \<Longrightarrow> R x" "\<And>x. R2 x \<Longrightarrow> R x"
  shows "written C R m m2"
  unfolding written_def
proof (intro allI impI)
  fix k g assume a: "map_of m2 k = Some g" "k \<notin> C"
  then have "map_of m1 k = Some g \<or> R2 (geo_order g)" using assms(2) unfolding written_def by blast
  then show "map_of m k = Some g \<or> R (geo_order g)"
  proof
    assume "map_of m1 k = Some g"
    then have "map_of m k = Some g \<or> R1 (geo_order g)"
      using assms(1) a(2) unfolding written_def by blast
    then show ?thesis using assms(3) by blast
  next
    assume "R2 (geo_order g)"
    then show ?thesis using assms(4) by blast
  qed
qed

lemma no_entry_weaken:
  "no_entry C R m \<Longrightarrow> (\<And>x. R' x \<Longrightarrow> R x) \<Longrightarrow> no_entry C R' m"
  unfolding no_entry_def by blast

lemma no_entry_written:
  assumes "no_entry C R m" "written C R1 m m1" "\<And>x. R1 x \<Longrightarrow> \<not> R x"
  shows "no_entry C R m1"
  unfolding no_entry_def
proof (intro allI impI)
  fix k g assume a: "map_of m1 k = Some g" "k \<notin> C"
  then have "map_of m k = Some g \<or> R1 (geo_order g)" using assms(2) unfolding written_def by blast
  then show "\<not> R (geo_order g)"
  proof
    assume "map_of m k = Some g"
    then show ?thesis using assms(1) a(2) unfolding no_entry_def by blast
  next
    assume "R1 (geo_order g)"
    then show ?thesis by (rule assms(3))
  qed
qed

lemma no_entry_others:
  assumes "no_entry C R m" "\<And>x. x = ord \<Longrightarrow> R x"
  shows "\<forall>k g'. map_of m k = Some g' \<longrightarrow> k \<notin> C \<longrightarrow> geo_order g' \<noteq> ord"
  using assms unfolding no_entry_def by blast

lemma add_widget_orders:
  "chrome_ids w \<subseteq> C \<longrightarrow> orders_inv C (fst st) \<longrightarrow> no_entry C (prefix ord) (fst st) \<longrightarrow>
     orders_inv C (fst (add_widget vo w vr region ord lo clip vis0 st)) \<and>
     written C (prefix ord) (fst st) (fst (add_widget vo w vr region ord lo clip vis0 st))"
proof (rule arrange_induct[where
      P = "\<lambda>vo w vr region ord lo clip vis0 st.
             chrome_ids w \<subseteq> C \<longrightarrow> orders_inv C (fst st) \<longrightarrow> no_entry C (prefix ord) (fst st) \<longrightarrow>
             orders_inv C (fst (add_widget vo w vr region ord lo clip vis0 st)) \<and>
             written C (prefix ord) (fst st) (fst (add_widget vo w vr region ord lo clip vis0 st))"
      and Q = "\<lambda>vo ps ly ss po pso ord lo sc vis st.
             placements_chrome_ids ps \<subseteq> C \<longrightarrow> orders_inv C (fst (snd st)) \<longrightarrow>
             no_entry C (below ord lo) (fst (snd st)) \<longrightarrow>
             orders_inv C (fst (snd (add_placements vo ps ly ss po pso ord lo sc vis st))) \<and>
             written C (below ord lo) (fst (snd st))
               (fst (snd (add_placements vo ps ly ss po pso ord lo sc vis st)))"],
    goal_cases)
  case (1 vo w vr region ord lo clip vis0 st)
  obtain m ws where st: "st = (m, ws)" by (cases st)
  show ?case
  proof (intro impI)
    assume cw: "chrome_ids w \<subseteq> C" and inv: "orders_inv C (fst st)"
      and fresh: "no_entry C (prefix ord) (fst st)"
    obtain visible g cs chrome where
      g: "geo_order g = ord" and
      chrome: "set chrome \<subseteq> set (w_arrange_scrollbars w)" and
      shape: "if w_is_scrollable w \<and> w_is_container w then
          (\<exists>ps ly ss po pso sc tr0 tr m1 ws1.
             set ps \<subseteq> set (a_placements (w_arrange w)) \<and>
             add_placements vo ps ly ss po pso ord lo sc visible
               (tr0, m, (if visible then insert (w_id w) ws else ws) \<union> a_widgets (w_arrange w))
               = (tr, m1, ws1) \<and>
             add_widget vo w vr region ord lo clip vis0 (m, ws) =
               (if visible
                then (AList.update (w_id w) g (add_scrollbars chrome ord clip cs m1), ws1)
                else (m1, ws1)))
        else
          add_widget vo w vr region ord lo clip vis0 (m, ws) =
            (if visible
             then (AList.update (w_id w) g (add_scrollbars chrome ord clip cs m), insert (w_id w) ws)
             else (m, ws))"
      using add_widget_shape[of ord clip w vo lo m ws vr region vis0] by blast
    have c: "fst ` set chrome \<subseteq> C"
      using chrome cw by (auto simp: chrome_ids_unfold[of w])
    have invm: "orders_inv C m" and freshm: "no_entry C (prefix ord) m"
      using inv fresh by (simp_all add: st)
    show "orders_inv C (fst (add_widget vo w vr region ord lo clip vis0 st)) \<and>
          written C (prefix ord) (fst st) (fst (add_widget vo w vr region ord lo clip vis0 st))"
    proof (cases "w_is_scrollable w \<and> w_is_container w")
      case False
      then have eq: "add_widget vo w vr region ord lo clip vis0 (m, ws) =
            (if visible
             then (AList.update (w_id w) g (add_scrollbars chrome ord clip cs m), insert (w_id w) ws)
             else (m, ws))"
        using shape by simp
      show ?thesis
      proof (cases visible)
        case True
        have o: "\<forall>k g'. map_of m k = Some g' \<longrightarrow> k \<notin> C \<longrightarrow> geo_order g' \<noteq> ord"
          using freshm by (rule no_entry_others) simp
        note oe = own_entry[OF invm c o g, of "w_id w" clip cs]
        have "written C (prefix ord) m (AList.update (w_id w) g (add_scrollbars chrome ord clip cs m))"
          using written_trans[OF written_refl oe(2), of "prefix ord"] by simp
        then show ?thesis using oe(1) True by (simp add: st eq)
      next
        case False
        then show ?thesis using invm by (simp add: st eq written_refl)
      qed
    next
      case True
      then obtain ps ly ss po pso sc tr0 tr m1 ws1 where
        sub: "set ps \<subseteq> set (a_placements (w_arrange w))" and
        ap: "add_placements vo ps ly ss po pso ord lo sc visible
               (tr0, m, (if visible then insert (w_id w) ws else ws) \<union> a_widgets (w_arrange w))
               = (tr, m1, ws1)" and
        eq: "add_widget vo w vr region ord lo clip vis0 (m, ws) =
               (if visible
                then (AList.update (w_id w) g (add_scrollbars chrome ord clip cs m1), ws1)
                else (m1, ws1))"
        using shape by auto
      let ?st0 = "(tr0, m, (if visible then insert (w_id w) ws else ws) \<union> a_widgets (w_arrange w))"
      have pc: "placements_chrome_ids ps \<subseteq> C"
        using sub cw by (rule placed_chrome_ids)
      have fb: "no_entry C (below ord lo) m"
        using freshm by (rule no_entry_weaken) (rule below_prefix)
      have "placements_chrome_ids ps \<subseteq> C \<longrightarrow> orders_inv C (fst (snd ?st0)) \<longrightarrow>
             no_entry C (below ord lo) (fst (snd ?st0)) \<longrightarrow>
             orders_inv C (fst (snd (add_placements vo ps ly ss po pso ord lo sc visible ?st0))) \<and>
             written C (below ord lo) (fst (snd ?st0))
               (fst (snd (add_placements vo ps ly ss po pso ord lo sc visible ?st0)))"
        by (rule "1"[OF sub])
      then have q: "orders_inv C m1" "written C (below ord lo) m m1"
        using pc invm fb by (simp_all add: ap)
      show ?thesis
      proof (cases visible)
        case True
        have "no_entry C (\<lambda>x. x = ord) m1"
        proof (rule no_entry_written[OF _ q(2)])
          show "no_entry C (\<lambda>x. x = ord) m" using freshm by (rule no_entry_weaken) simp
          show "\<And>x. below ord lo x \<Longrightarrow> x \<noteq> ord" by (rule below_neq)
        qed
        then have o: "\<forall>k g'. map_of m1 k = Some g' \<longrightarrow> k \<notin> C \<longrightarrow> geo_order g' \<noteq> ord"
          unfolding no_entry_def by blast
        note oe = own_entry[OF q(1) c o g, of "w_id w" clip cs]
        have "written C (prefix ord) m (AList.update (w_id w) g (add_scrollbars chrome ord clip cs m1))"
          using written_trans[OF q(2) oe(2), of "prefix ord"] below_prefix by simp
        then show ?thesis using oe(1) True by (simp add: st eq)
      next
        case False
        have "written C (prefix ord) m m1"
          using written_trans[OF q(2) written_refl, of "prefix ord"] below_prefix by simp
        then show ?thesis using q(1) False by (simp add: st eq)
      qed
    qed
  qed
next
  case 2
  show ?case by (simp add: written_refl)
next
  case (3 vo p rest ly ss po pso ord lo sc vis st)
  obtain tr m ws where st: "st = (tr, m, ws)" by (cases st)
  show ?case
  proof (intro impI)
    assume pc: "placements_chrome_ids (p # rest) \<subseteq> C" and inv: "orders_inv C (fst (snd st))"
      and fresh: "no_entry C (below ord lo) (fst (snd st))"
    have invm: "orders_inv C m" and freshm: "no_entry C (below ord lo) m"
      using inv fresh by (simp_all add: st)
    obtain li z vr region tr' where
      eq: "add_placements vo (p # rest) ly ss po pso ord lo sc vis (tr, m, ws) =
         add_placements vo rest ly ss po pso ord (lo - 1) sc vis
           (tr', fst (add_widget vo (p_widget p) vr region (ord @ [(li, z, lo)]) lo sc vis (m, ws)),
                 snd (add_widget vo (p_widget p) vr region (ord @ [(li, z, lo)]) lo sc vis (m, ws)))"
      using add_placements_Cons_shape[of vo p rest ly ss po pso ord lo sc vis tr m ws] by blast
    let ?o1 = "ord @ [(li, z, lo)]"
    let ?mid = "add_widget vo (p_widget p) vr region ?o1 lo sc vis (m, ws)"
    let ?st1 = "(tr', fst ?mid, snd ?mid)"
    have f1: "no_entry C (prefix ?o1) m"
      using freshm by (rule no_entry_weaken) (rule below_last)
    have "chrome_ids (p_widget p) \<subseteq> C \<longrightarrow> orders_inv C (fst (m, ws)) \<longrightarrow>
          no_entry C (prefix ?o1) (fst (m, ws)) \<longrightarrow>
          orders_inv C (fst ?mid) \<and> written C (prefix ?o1) (fst (m, ws)) (fst ?mid)"
      by (rule "3"(1))
    then have a: "orders_inv C (fst ?mid)" "written C (prefix ?o1) m (fst ?mid)"
      using pc invm f1 by (simp_all add: placements_chrome_ids_Cons)
    have bm: "\<And>x. below ord (lo - 1) x \<Longrightarrow> below ord lo x"
      using below_mono[of ord "lo - 1" _ lo] by simp
    have f2: "no_entry C (below ord (lo - 1)) (fst ?mid)"
    proof (rule no_entry_written[OF _ a(2)])
      show "no_entry C (below ord (lo - 1)) m"
        using freshm bm by (rule no_entry_weaken)
      show "\<And>x. prefix ?o1 x \<Longrightarrow> \<not> below ord (lo - 1) x"
        using below_disjoint by blast
    qed
    have "placements_chrome_ids rest \<subseteq> C \<longrightarrow> orders_inv C (fst (snd ?st1)) \<longrightarrow>
          no_entry C (below ord (lo - 1)) (fst (snd ?st1)) \<longrightarrow>
          orders_inv C (fst (snd (add_placements vo rest ly ss po pso ord (lo - 1) sc vis ?st1))) \<and>
          written C (below ord (lo - 1)) (fst (snd ?st1))
            (fst (snd (add_placements vo rest ly ss po pso ord (lo - 1) sc vis ?st1)))"
      by (rule "3"(2))
    then have b: "orders_inv C (fst (snd (add_placements vo rest ly ss po pso ord (lo - 1) sc vis ?st1)))"
      "written C (below ord (lo - 1)) (fst ?mid)
         (fst (snd (add_placements vo rest ly ss po pso ord (lo - 1) sc vis ?st1)))"
      using pc a(1) f2 by (simp_all add: placements_chrome_ids_Cons)
    have w: "written C (below ord lo) m
         (fst (snd (add_placements vo rest ly ss po pso ord (lo - 1) sc vis ?st1)))"
    proof (rule written_trans[OF a(2) b(2)])
      show "\<And>x. prefix ?o1 x \<Longrightarrow> below ord lo x" by (rule below_last)
      show "\<And>x. below ord (lo - 1) x \<Longrightarrow> below ord lo x" by (rule bm)
    qed
    show "orders_inv C (fst (snd (add_placements vo (p # rest) ly ss po pso ord lo sc vis st))) \<and>
          written C (below ord lo) (fst (snd st))
            (fst (snd (add_placements vo (p # rest) ly ss po pso ord lo sc vis st)))"
      unfolding st eq using b(1) w by simp
  qed
qed

lemma arrange_root_orders_inv:
  "orders_inv (chrome_ids root') (fst (arrange_root root' size' visible_only))"
proof -
  have "orders_inv (chrome_ids root') (fst ([], {}))" by (simp add: orders_inv_def)
  moreover have "no_entry (chrome_ids root') (prefix [(0, 0, 0)]) (fst ([], {}))"
    by (simp add: no_entry_def)
  ultimately show ?thesis
    using add_widget_orders[of root' "chrome_ids root'" "([], {})" "[(0, 0, 0)]" visible_only
            "size_region size'" "size_region size'" 0 "size_region size'" True]
    unfolding arrange_root_def by blast
qed

lemma map_of_add_scrollbars_chrome:
  "(cw, cr) \<in> set chrome \<Longrightarrow>
   \<exists>cr'. map_of (add_scrollbars chrome ord clip cs m) cw =
           Some (MapGeometry cr' ord clip cs cs cr')"
proof (induction chrome arbitrary: m cr)
  case Nil
  then show ?case by simp
next
  case (Cons c chrome)
  obtain cw' cr' where c: "c = (cw', cr')" by (cases c)
  show ?case
  proof (cases "cw \<in> fst ` set chrome")
    case True
    then obtain cr2 where "(cw, cr2) \<in> set chrome" by auto
    from Cons.IH[OF this] show ?thesis unfolding c add_scrollbars_Cons .
  next
    case False
    then have "(cw, cr) \<notin> set chrome" by force
    then have e: "cw' = cw" "cr' = cr" using Cons.prems c by auto
    have "map_of (add_scrollbars chrome ord clip cs
              (AList.update cw (MapGeometry cr ord clip cs cs cr) m)) cw =
          map_of (AList.update cw (MapGeometry cr ord clip cs cs cr) m) cw"
      by (rule map_of_add_scrollbars[OF False])
    then show ?thesis unfolding c e add_scrollbars_Cons by (simp add: update_conv')
  qed
qed

lemma add_widget_scrollbars_cases:
  assumes "case w_visibility widget of None \<Rightarrow> visible0
           | Some visibility \<Rightarrow> visibility = ''visible''"
    and "w_is_scrollable widget"
    and "fst (w_scrollbars_enabled widget) \<or> snd (w_scrollbars_enabled widget)"
    and r: "\<And>map1 g container_size. geo_order g = order \<Longrightarrow>
       P (AList.update (w_id widget) g
            (add_scrollbars (w_arrange_scrollbars widget) order clip container_size map1))"
  shows "P (fst (add_widget visible_only widget virtual_region region order layer_order clip
                   visible0 (map0, widgets0)))"
  using assms(1-3)
  by (auto simp: add_widget.simps Let_def split: prod.splits intro!: r)

lemma add_widget_scrollbars_shape:
  assumes "case w_visibility widget of None \<Rightarrow> visible0
           | Some visibility \<Rightarrow> visibility = ''visible''"
    and "w_is_scrollable widget"
    and "fst (w_scrollbars_enabled widget) \<or> snd (w_scrollbars_enabled widget)"
  shows "\<exists>map1 g container_size.
     fst (add_widget visible_only widget virtual_region region order layer_order clip visible0
            (map0, widgets0)) =
       AList.update (w_id widget) g
         (add_scrollbars (w_arrange_scrollbars widget) order clip container_size map1) \<and>
     geo_order g = order"
  by (rule add_widget_scrollbars_cases[OF assms]) blast

lemma add_widget_chrome_order:
  assumes "case w_visibility widget of None \<Rightarrow> visible0
           | Some visibility \<Rightarrow> visibility = ''visible''"
    and "w_is_scrollable widget"
    and "fst (w_scrollbars_enabled widget) \<or> snd (w_scrollbars_enabled widget)"
  shows "(\<exists>g. map_of (fst (add_widget visible_only widget virtual_region region order
                 layer_order clip visible0 (map0, widgets0))) (w_id widget) = Some g \<and>
              geo_order g = order) \<and>
         (\<forall>(chrome_widget, chrome_region) \<in> set (w_arrange_scrollbars widget).
            chrome_widget \<noteq> w_id widget \<longrightarrow>
            (\<exists>g. map_of (fst (add_widget visible_only widget virtual_region region order
                     layer_order clip visible0 (map0, widgets0))) chrome_widget = Some g \<and>
                  geo_order g = order \<and> geo_clip g = clip))"
proof -
  from add_widget_scrollbars_shape[OF assms]
  obtain map1 g container_size where g: "geo_order g = order"
    and e: "fst (add_widget visible_only widget virtual_region region order layer_order clip
              visible0 (map0, widgets0)) =
       AList.update (w_id widget) g
         (add_scrollbars (w_arrange_scrollbars widget) order clip container_size map1)"
    by blast
  have own: "\<exists>g. map_of (fst (add_widget visible_only widget virtual_region region order
                 layer_order clip visible0 (map0, widgets0))) (w_id widget) = Some g \<and>
              geo_order g = order"
    unfolding e using g by (simp add: update_conv')
  have chrome: "\<exists>g. map_of (fst (add_widget visible_only widget virtual_region region order
                     layer_order clip visible0 (map0, widgets0))) cw = Some g \<and>
                  geo_order g = order \<and> geo_clip g = clip"
    if "(cw, cr) \<in> set (w_arrange_scrollbars widget)" "cw \<noteq> w_id widget" for cw cr
  proof -
    from map_of_add_scrollbars_chrome[OF that(1)]
    obtain cr' where "map_of (add_scrollbars (w_arrange_scrollbars widget) order clip
         container_size map1) cw =
           Some (MapGeometry cr' order clip container_size container_size cr')"
      by blast
    then show ?thesis unfolding e using that(2) by (simp add: update_conv')
  qed
  show ?thesis using own chrome by blast
qed

text \<open>
  Claim C4, amended.  In every map produced by the arrangement, with the visible placements
  only (reflow) or with all placements (rebuild of the full map), two different widgets that
  are not scrollbar chrome widgets have different order tuples.  A scrollbar chrome widget is
  inserted with the order tuple of its owner: when \<^verbatim>\<open>add_widget\<close> returns for a visible
  scrollable widget with a scrollbar enabled, whatever the map was before, the map holds the
  widget with the order it was called with, and every chrome widget of the widget (other
  than the widget itself) with that same order and the clip of the call.
\<close>

theorem arrange_orders_distinct:
  "(\<forall>k1 g1 k2 g2.
      (k1, g1) \<in> set (fst (arrange_root root' size' visible_only)) \<longrightarrow>
      (k2, g2) \<in> set (fst (arrange_root root' size' visible_only)) \<longrightarrow>
      k1 \<noteq> k2 \<longrightarrow> k1 \<notin> chrome_ids root' \<longrightarrow> k2 \<notin> chrome_ids root' \<longrightarrow>
      geo_order g1 \<noteq> geo_order g2) \<and>
   (\<forall>widget virtual_region region order layer_order clip visible0 map0 widgets0.
      (case w_visibility widget of None \<Rightarrow> visible0
       | Some visibility \<Rightarrow> visibility = ''visible'') \<longrightarrow>
      w_is_scrollable widget \<longrightarrow>
      fst (w_scrollbars_enabled widget) \<or> snd (w_scrollbars_enabled widget) \<longrightarrow>
      (\<exists>g. map_of (fst (add_widget visible_only widget virtual_region region order
                 layer_order clip visible0 (map0, widgets0))) (w_id widget) = Some g \<and>
           geo_order g = order) \<and>
      (\<forall>(chrome_widget, chrome_region) \<in> set (w_arrange_scrollbars widget).
         chrome_widget \<noteq> w_id widget \<longrightarrow>
         (\<exists>g. map_of (fst (add_widget visible_only widget virtual_region region order
                    layer_order clip visible0 (map0, widgets0))) chrome_widget = Some g \<and>
              geo_order g = order \<and> geo_clip g = clip)))"
proof (intro conjI allI impI)
  fix k1 g1 k2 g2
  assume a: "(k1, g1) \<in> set (fst (arrange_root root' size' visible_only))"
    "(k2, g2) \<in> set (fst (arrange_root root' size' visible_only))"
    "k1 \<noteq> k2" "k1 \<notin> chrome_ids root'" "k2 \<notin> chrome_ids root'"
  let ?m = "fst (arrange_root root' size' visible_only)"
  have inv: "orders_inv (chrome_ids root') ?m" by (rule arrange_root_orders_inv)
  then have d: "distinct (map fst ?m)" by (simp add: orders_inv_def)
  have "map_of ?m k1 = Some g1" "map_of ?m k2 = Some g2"
    using a(1,2) d by simp_all
  then show "geo_order g1 \<noteq> geo_order g2" using inv a(3,4,5) unfolding orders_inv_def by blast
next
  fix widget virtual_region region order layer_order clip visible0 map0 widgets0
  assume a: "case w_visibility widget of None \<Rightarrow> visible0
       | Some visibility \<Rightarrow> visibility = ''visible''"
    "w_is_scrollable widget"
    "fst (w_scrollbars_enabled widget) \<or> snd (w_scrollbars_enabled widget)"
  note c = add_widget_chrome_order[OF a, of visible_only virtual_region region order
      layer_order clip map0 widgets0]
  show "\<exists>g. map_of (fst (add_widget visible_only widget virtual_region region order
                 layer_order clip visible0 (map0, widgets0))) (w_id widget) = Some g \<and>
           geo_order g = order"
    by (rule conjunct1[OF c])
  show "\<forall>(chrome_widget, chrome_region) \<in> set (w_arrange_scrollbars widget).
         chrome_widget \<noteq> w_id widget \<longrightarrow>
         (\<exists>g. map_of (fst (add_widget visible_only widget virtual_region region order
                    layer_order clip visible0 (map0, widgets0))) chrome_widget = Some g \<and>
              geo_order g = order \<and> geo_clip g = clip)"
    by (rule conjunct2[OF c])
qed

lemma scroll_root_map:
  "fst (arrange_root scroll_root (Size 10 3) True) =
     [(9, MapGeometry (Region 9 0 1 3) [(0, 0, 0)] (Region 0 0 10 3) (Size 10 3) (Size 10 3)
            (Region 9 0 1 3)),
      (1, MapGeometry (Region 0 0 10 3) [(0, 0, 0)] (Region 0 0 10 3) (Size 10 3) (Size 10 3)
            (Region 0 0 10 3))]"
  by code_simp

text \<open>
  Claim C4, as stated, fails for a scrollable root with a scrollbar: the scrollbar (widget 9)
  and its owner (widget 1) are both in the map with the order ((0, 0, 0),).
\<close>

theorem arrange_orders_distinct_counterexample:
  "(9, MapGeometry (Region 9 0 1 3) [(0, 0, 0)] (Region 0 0 10 3) (Size 10 3) (Size 10 3)
         (Region 9 0 1 3)) \<in> set (fst (arrange_root scroll_root (Size 10 3) True)) \<and>
   (1, MapGeometry (Region 0 0 10 3) [(0, 0, 0)] (Region 0 0 10 3) (Size 10 3) (Size 10 3)
         (Region 0 0 10 3)) \<in> set (fst (arrange_root scroll_root (Size 10 3) True)) \<and>
   (9::nat) \<noteq> 1 \<and>
   geo_order (MapGeometry (Region 9 0 1 3) [(0, 0, 0)] (Region 0 0 10 3) (Size 10 3) (Size 10 3)
                (Region 9 0 1 3)) =
   geo_order (MapGeometry (Region 0 0 10 3) [(0, 0, 0)] (Region 0 0 10 3) (Size 10 3) (Size 10 3)
                (Region 0 0 10 3))"
  by (simp add: scroll_root_map)

lemma two_rows_full:
  "fst (arrange_root two_rows (Size 10 3) False) =
     [(3, MapGeometry (Region 0 5 5 1) [(0, 0, 0), (0, 0, 0)] (Region 0 0 10 3) (Size 5 1)
            (Size 5 1) (Region 0 5 5 1)),
      (2, MapGeometry (Region 2 1 5 1) [(0, 0, 0), (0, 0, - 1)] (Region 0 0 10 3) (Size 5 1)
            (Size 5 1) (Region 2 1 5 1)),
      (1, MapGeometry (Region 0 0 10 3) [(0, 0, 0)] (Region 0 0 10 3) (Size 10 6) (Size 10 3)
            (Region 0 0 10 3))]"
  by code_simp

lemma two_rows_chrome: "chrome_ids two_rows = {}"
  by (simp add: two_rows_def container_def place_def leaf_def)

lemma scroll_root_fields:
  "w_id scroll_root = 1" "w_visibility scroll_root = None" "w_is_scrollable scroll_root"
  "w_scrollbars_enabled scroll_root = (True, False)"
  "w_arrange_scrollbars scroll_root = [(9, Region 9 0 1 3)]"
  by (simp_all add: scroll_root_def container_def)

theorem arrange_orders_distinct_witness:
  "(3, MapGeometry (Region 0 5 5 1) [(0, 0, 0), (0, 0, 0)] (Region 0 0 10 3) (Size 5 1)
         (Size 5 1) (Region 0 5 5 1)) \<in> set (fst (arrange_root two_rows (Size 10 3) False)) \<and>
   (2, MapGeometry (Region 2 1 5 1) [(0, 0, 0), (0, 0, - 1)] (Region 0 0 10 3) (Size 5 1)
         (Size 5 1) (Region 2 1 5 1)) \<in> set (fst (arrange_root two_rows (Size 10 3) False)) \<and>
   (3::nat) \<noteq> 2 \<and> 3 \<notin> chrome_ids two_rows \<and> 2 \<notin> chrome_ids two_rows \<and>
   [(0, 0, 0), (0, 0, 0)] \<noteq> [(0, 0, 0), (0, 0, - 1 :: int)] \<and>
   w_visibility scroll_root = None \<and> w_is_scrollable scroll_root \<and>
   fst (w_scrollbars_enabled scroll_root) \<and>
   (9, Region 9 0 1 3) \<in> set (w_arrange_scrollbars scroll_root) \<and> 9 \<noteq> w_id scroll_root \<and>
   map_option geo_order (map_of (fst (arrange_root scroll_root (Size 10 3) False)) 9) =
     Some [(0, 0, 0)] \<and>
   map_option geo_order
     (map_of (fst (arrange_root scroll_root (Size 10 3) False)) (w_id scroll_root)) =
     Some [(0, 0, 0)]"
proof -
  have 1: "(3, MapGeometry (Region 0 5 5 1) [(0, 0, 0), (0, 0, 0)] (Region 0 0 10 3) (Size 5 1)
         (Size 5 1) (Region 0 5 5 1)) \<in> set (fst (arrange_root two_rows (Size 10 3) False))"
    by (simp add: two_rows_full)
  have 2: "(2, MapGeometry (Region 2 1 5 1) [(0, 0, 0), (0, 0, - 1)] (Region 0 0 10 3) (Size 5 1)
         (Size 5 1) (Region 2 1 5 1)) \<in> set (fst (arrange_root two_rows (Size 10 3) False))"
    by (simp add: two_rows_full)
  have 3: "(3::nat) \<noteq> 2" by simp
  have 4: "3 \<notin> chrome_ids two_rows" "2 \<notin> chrome_ids two_rows" by (simp_all add: two_rows_chrome)
  note t = arrange_orders_distinct[of two_rows "Size 10 3" False]
  note a = conjunct1[OF t, rule_format, OF 1 2 3 4]
  note b0 = conjunct2[OF arrange_orders_distinct[of scroll_root "Size 10 3" False], rule_format]
  note b = b0[where widget = scroll_root and ?visible0.0 = True
      and virtual_region = "size_region (Size 10 3)" and region = "size_region (Size 10 3)"
      and order = "[(0, 0, 0)]" and layer_order = 0 and clip = "size_region (Size 10 3)"
      and ?map0.0 = "[]" and ?widgets0.0 = "{}"]
  have v: "case w_visibility scroll_root of None \<Rightarrow> True
       | Some visibility \<Rightarrow> visibility = ''visible''"
    by (simp add: scroll_root_fields)
  have s: "w_is_scrollable scroll_root"
    "fst (w_scrollbars_enabled scroll_root) \<or> snd (w_scrollbars_enabled scroll_root)"
    by (simp_all add: scroll_root_fields)
  from b[OF v s] have 5:
    "map_option geo_order
       (map_of (fst (arrange_root scroll_root (Size 10 3) False)) (w_id scroll_root)) =
       Some [(0, 0, 0)]"
    "map_option geo_order (map_of (fst (arrange_root scroll_root (Size 10 3) False)) 9) =
       Some [(0, 0, 0)]"
    by (auto simp: arrange_root_def scroll_root_fields)
  from a 1 2 4 5 show ?thesis by (simp add: scroll_root_fields)
qed

section \<open>Updates\<close>

lemma visible_widgets_dirty [simp]:
  "c_dirty_regions (snd (visible_widgets s)) = c_dirty_regions s"
  by (simp add: visible_widgets_def Let_def split: option.splits)

lemma cuts_dirty [simp]: "c_dirty_regions (snd (cuts s)) = c_dirty_regions s"
proof -
  have "c_dirty_regions (snd (visible_widgets s)) = c_dirty_regions s" by simp
  then show ?thesis
    by (cases "visible_widgets s") (simp add: cuts_def Let_def split: option.splits)
qed

lemma get_renders_dirty [simp]:
  "c_dirty_regions (snd (get_renders opacity render_lines crop s)) = c_dirty_regions s"
proof -
  have "c_dirty_regions (snd (visible_widgets s)) = c_dirty_regions s" by simp
  then show ?thesis
    by (cases "visible_widgets s")
       (simp add: get_renders_def render_calls_def widget_regions_def Let_def
             split: option.splits prod.splits)
qed

lemma render_chops_dirty [simp]:
  "c_dirty_regions (snd (render_chops opacity render_lines crop is_rendered_line s)) =
     c_dirty_regions s"
proof -
  obtain cs s1 where c: "cuts s = (cs, s1)" by (cases "cuts s")
  obtain rs s2 where r: "get_renders opacity render_lines (Some crop) s1 = (rs, s2)"
    by (cases "get_renders opacity render_lines (Some crop) s1")
  have "c_dirty_regions s1 = c_dirty_regions s" using cuts_dirty[of s] c by simp
  moreover have "c_dirty_regions s2 = c_dirty_regions s1"
    using get_renders_dirty[of opacity render_lines "Some crop" s1] r by simp
  ultimately show ?thesis by (simp add: render_chops_def c r)
qed

lemma render_full_update_dirty:
  "c_dirty_regions (snd (render_full_update opacity render_lines s)) = []"
proof -
  let ?s1 = "s\<lparr>c_dirty_regions := []\<rparr>"
  obtain res s2 where r: "render_chops opacity render_lines (size_region (c_size s)) (\<lambda>y. True) ?s1
      = (res, s2)"
    by (cases "render_chops opacity render_lines (size_region (c_size s)) (\<lambda>y. True) ?s1")
  have "c_dirty_regions s2 = []"
    using render_chops_dirty[of opacity render_lines "size_region (c_size s)" "\<lambda>y. True" ?s1] r
    by simp
  then show ?thesis
    by (simp add: render_full_update_def Let_def r split: sum.splits)
qed

lemma render_full_update_kind:
  "fst (render_full_update opacity render_lines s) = Inr u \<Longrightarrow>
     \<exists>strips. u = LayoutUpdate strips (size_region (c_size s))"
  by (auto simp: render_full_update_def Let_def split: prod.splits sum.splits)

lemma render_partial_update_empty:
  "c_dirty_regions s = [] \<Longrightarrow>
     render_partial_update opacity render_lines s = (Inr None, s\<lparr>c_dirty_regions := []\<rparr>)"
  by (simp add: render_partial_update_def Let_def)

lemma render_partial_update_nonempty:
  assumes "c_dirty_regions s \<noteq> []"
  shows "c_dirty_regions (snd (render_partial_update opacity render_lines s)) = []"
    and "fst (render_partial_update opacity render_lines s) \<noteq> Inr None"
    and "fst (render_partial_update opacity render_lines s) = Inr (Some u) \<Longrightarrow>
           \<exists>chops chop_ends. u = ChopsUpdate chops (regions_to_spans (c_dirty_regions s)) chop_ends"
proof -
  let ?s1 = "s\<lparr>c_dirty_regions := []\<rparr>"
  let ?crop = "intersection (from_union (c_dirty_regions s)) (size_region (c_size s))"
  let ?irl = "\<lambda>y. y \<in> fst ` set (regions_to_spans (c_dirty_regions s))"
  obtain res s2 where r: "render_chops opacity render_lines ?crop ?irl ?s1 = (res, s2)"
    by (cases "render_chops opacity render_lines ?crop ?irl ?s1")
  obtain cs s3 where c: "cuts s2 = (cs, s3)" by (cases "cuts s2")
  have d2: "c_dirty_regions s2 = []"
    using render_chops_dirty[of opacity render_lines ?crop ?irl ?s1] r by simp
  have d3: "c_dirty_regions s3 = []" using cuts_dirty[of s2] c d2 by simp
  show "c_dirty_regions (snd (render_partial_update opacity render_lines s)) = []"
    using assms d2 d3 by (simp add: render_partial_update_def Let_def r c split: sum.splits)
  show "fst (render_partial_update opacity render_lines s) \<noteq> Inr None"
    using assms by (simp add: render_partial_update_def Let_def r c split: sum.splits)
  show "fst (render_partial_update opacity render_lines s) = Inr (Some u) \<Longrightarrow>
           \<exists>chops chop_ends. u = ChopsUpdate chops (regions_to_spans (c_dirty_regions s)) chop_ends"
    using assms by (auto simp: render_partial_update_def Let_def r c split: sum.splits)
qed

lemma render_update_full:
  assumes "full \<or> size_region (c_size s) \<in> set (c_dirty_regions s)"
  shows "fst (render_update opacity render_lines full s) =
           map_sum id Some (fst (render_full_update opacity render_lines s))"
    and "snd (render_update opacity render_lines full s) =
           snd (render_full_update opacity render_lines s)"
  using assms
  by (cases "render_full_update opacity render_lines s";
      simp add: render_update_def Let_def split: sum.splits)+

lemma render_update_partial:
  assumes "\<not> (full \<or> size_region (c_size s) \<in> set (c_dirty_regions s))"
  shows "render_update opacity render_lines full s = render_partial_update opacity render_lines s"
  using assms by (simp add: render_update_def Let_def)

lemma render_partial_update_dirty:
  "c_dirty_regions (snd (render_partial_update opacity render_lines s)) = []"
  by (cases "c_dirty_regions s = []")
     (simp_all add: render_partial_update_empty render_partial_update_nonempty(1))

lemma render_partial_update_none:
  "fst (render_partial_update opacity render_lines s) = Inr None \<longleftrightarrow> c_dirty_regions s = []"
  by (cases "c_dirty_regions s = []")
     (simp_all add: render_partial_update_empty render_partial_update_nonempty(2))

text \<open>
  Claim C8.  \<^verbatim>\<open>render_update\<close> is \<^verbatim>\<open>render_full_update\<close> when \<open>full\<close> is set or the screen region is
  among the dirty regions, and \<^verbatim>\<open>render_partial_update\<close> otherwise.  Unless an exception
  escapes from \<^verbatim>\<open>_render_chops\<close>, the first returns a \<open>LayoutUpdate\<close> for the screen region, never
  \<^verbatim>\<open>None\<close>, and the second returns \<^verbatim>\<open>None\<close> or a \<open>ChopsUpdate\<close> whose spans are those of the dirty
  regions found at the call.  Both leave the set of dirty regions empty, and the partial update
  returns \<^verbatim>\<open>None\<close> exactly when the set was empty at the call.
\<close>

theorem render_update_full_or_partial:
  "(full \<or> size_region (c_size s) \<in> set (c_dirty_regions s) \<longrightarrow>
      fst (render_update opacity render_lines full s) =
        map_sum id Some (fst (render_full_update opacity render_lines s)) \<and>
      snd (render_update opacity render_lines full s) =
        snd (render_full_update opacity render_lines s) \<and>
      fst (render_update opacity render_lines full s) \<noteq> Inr None \<and>
      (\<forall>u. fst (render_update opacity render_lines full s) = Inr (Some u) \<longrightarrow>
           (\<exists>strips. u = LayoutUpdate strips (size_region (c_size s))))) \<and>
   (\<not> (full \<or> size_region (c_size s) \<in> set (c_dirty_regions s)) \<longrightarrow>
      render_update opacity render_lines full s =
        render_partial_update opacity render_lines s \<and>
      (\<forall>u. fst (render_update opacity render_lines full s) = Inr (Some u) \<longrightarrow>
           (\<exists>chops chop_ends.
              u = ChopsUpdate chops (regions_to_spans (c_dirty_regions s)) chop_ends))) \<and>
   c_dirty_regions (snd (render_update opacity render_lines full s)) = [] \<and>
   c_dirty_regions (snd (render_partial_update opacity render_lines s)) = [] \<and>
   (fst (render_partial_update opacity render_lines s) = Inr None \<longleftrightarrow> c_dirty_regions s = [])"
proof (intro conjI impI allI)
  assume c: "full \<or> size_region (c_size s) \<in> set (c_dirty_regions s)"
  show f: "fst (render_update opacity render_lines full s) =
        map_sum id Some (fst (render_full_update opacity render_lines s))"
    by (rule render_update_full(1)[OF c])
  show "snd (render_update opacity render_lines full s) =
        snd (render_full_update opacity render_lines s)"
    by (rule render_update_full(2)[OF c])
  show "fst (render_update opacity render_lines full s) \<noteq> Inr None"
    unfolding f by (cases "fst (render_full_update opacity render_lines s)") simp_all
  fix u
  assume "fst (render_update opacity render_lines full s) = Inr (Some u)"
  then have "fst (render_full_update opacity render_lines s) = Inr u"
    unfolding f by (cases "fst (render_full_update opacity render_lines s)") simp_all
  then show "\<exists>strips. u = LayoutUpdate strips (size_region (c_size s))"
    by (rule render_full_update_kind)
next
  assume c: "\<not> (full \<or> size_region (c_size s) \<in> set (c_dirty_regions s))"
  show p: "render_update opacity render_lines full s =
        render_partial_update opacity render_lines s"
    by (rule render_update_partial[OF c])
  fix u
  assume u: "fst (render_update opacity render_lines full s) = Inr (Some u)"
  then have n: "c_dirty_regions s \<noteq> []"
    unfolding p using render_partial_update_none[of opacity render_lines s] by auto
  show "\<exists>chops chop_ends.
              u = ChopsUpdate chops (regions_to_spans (c_dirty_regions s)) chop_ends"
    using render_partial_update_nonempty(3)[OF n] u unfolding p by blast
next
  show "c_dirty_regions (snd (render_update opacity render_lines full s)) = []"
  proof (cases "full \<or> size_region (c_size s) \<in> set (c_dirty_regions s)")
    case True
    then show ?thesis by (simp add: render_update_full(2) render_full_update_dirty)
  next
    case False
    then show ?thesis by (simp add: render_update_partial render_partial_update_dirty)
  qed
  show "c_dirty_regions (snd (render_partial_update opacity render_lines s)) = []"
    by (rule render_partial_update_dirty)
  show "fst (render_partial_update opacity render_lines s) = Inr None \<longleftrightarrow> c_dirty_regions s = []"
    by (rule render_partial_update_none)
qed

lemma stacked_full:
  "fst (render_update (\<lambda>_. 1) tagged_lines True stacked_state) =
     Inr (Some (LayoutUpdate
       [[(2, 0, 0), (2, 1, 0), (3, 0, 0), (3, 1, 0), (3, 2, 0), (3, 3, 0)],
        [(2, 0, 1), (2, 1, 1), (3, 0, 1), (3, 1, 1), (3, 2, 1), (3, 3, 1)]]
       (Region 0 0 6 2)))"
  by code_simp

lemma dirty_partial:
  "fst (render_update (\<lambda>_. 1) tagged_lines False dirty_state) =
     Inr (Some (ChopsUpdate
       [[(0, Some [(2, 0, 0), (2, 1, 0)]), (2, Some [(3, 0, 0), (3, 1, 0)]),
         (4, Some [(3, 2, 0), (3, 3, 0)])],
        [(0, None), (2, None), (4, None)]]
       [(0, 1, 3)] [[2, 4, 6], [2, 4, 6]]))"
  by code_simp

lemma dirty_state_fields:
  "c_dirty_regions stacked_state = []" "c_dirty_regions dirty_state = [Region 1 0 2 1]"
  "size_region (c_size stacked_state) = Region 0 0 6 2"
  "size_region (c_size dirty_state) = Region 0 0 6 2"
  by (simp_all add: dirty_state_def stacked_state_def init_def)

lemma dirty_spans: "regions_to_spans [Region 1 0 2 1] = [(0, 1, 3)]"
  by code_simp

theorem render_update_full_or_partial_witness:
  "fst (render_update (\<lambda>_. 1) tagged_lines True stacked_state) =
     Inr (Some (LayoutUpdate
       [[(2, 0, 0), (2, 1, 0), (3, 0, 0), (3, 1, 0), (3, 2, 0), (3, 3, 0)],
        [(2, 0, 1), (2, 1, 1), (3, 0, 1), (3, 1, 1), (3, 2, 1), (3, 3, 1)]]
       (size_region (c_size stacked_state)))) \<and>
   c_dirty_regions dirty_state = [Region 1 0 2 1] \<and>
   size_region (c_size dirty_state) \<notin> set (c_dirty_regions dirty_state) \<and>
   fst (render_update (\<lambda>_. 1) tagged_lines False dirty_state) =
     Inr (Some (ChopsUpdate
       [[(0, Some [(2, 0, 0), (2, 1, 0)]), (2, Some [(3, 0, 0), (3, 1, 0)]),
         (4, Some [(3, 2, 0), (3, 3, 0)])],
        [(0, None), (2, None), (4, None)]]
       (regions_to_spans (c_dirty_regions dirty_state)) [[2, 4, 6], [2, 4, 6]])) \<and>
   c_dirty_regions (snd (render_update (\<lambda>_. 1) tagged_lines False dirty_state)) = [] \<and>
   c_dirty_regions stacked_state = [] \<and>
   fst (render_update (\<lambda>_. 1) tagged_lines False stacked_state) = Inr None"
proof -
  note f = render_update_full_or_partial[where full = True and s = stacked_state
      and opacity = "\<lambda>_. 1" and render_lines = tagged_lines]
  note p = render_update_full_or_partial[where full = False and s = dirty_state
      and opacity = "\<lambda>_. 1" and render_lines = tagged_lines]
  note n = render_update_full_or_partial[where full = False and s = stacked_state
      and opacity = "\<lambda>_. 1" and render_lines = tagged_lines]
  have 1: "fst (render_update (\<lambda>_. 1) tagged_lines True stacked_state) =
     Inr (Some (LayoutUpdate
       [[(2, 0, 0), (2, 1, 0), (3, 0, 0), (3, 1, 0), (3, 2, 0), (3, 3, 0)],
        [(2, 0, 1), (2, 1, 1), (3, 0, 1), (3, 1, 1), (3, 2, 1), (3, 3, 1)]]
       (size_region (c_size stacked_state))))"
    using f stacked_full by (simp add: dirty_state_fields)
  have 2: "fst (render_update (\<lambda>_. 1) tagged_lines False dirty_state) =
     Inr (Some (ChopsUpdate
       [[(0, Some [(2, 0, 0), (2, 1, 0)]), (2, Some [(3, 0, 0), (3, 1, 0)]),
         (4, Some [(3, 2, 0), (3, 3, 0)])],
        [(0, None), (2, None), (4, None)]]
       (regions_to_spans (c_dirty_regions dirty_state)) [[2, 4, 6], [2, 4, 6]]))"
    using p dirty_partial by (simp add: dirty_state_fields dirty_spans)
  have 3: "c_dirty_regions (snd (render_update (\<lambda>_. 1) tagged_lines False dirty_state)) = []"
    using p by simp
  have 4: "fst (render_update (\<lambda>_. 1) tagged_lines False stacked_state) = Inr None"
    using n by (simp add: dirty_state_fields)
  show ?thesis using 1 2 3 4 by (simp add: dirty_state_fields)
qed

end
